(* ===== verification/Prelude.thy ===== *)
theory Prelude
  imports Main "HOL-Library.Word"
begin

text \<open>
  Shared vocabulary of the development. The program keeps its synchronisation state in
  \<^verbatim>\<open>Int32Array\<close> views over a \<^verbatim>\<open>SharedArrayBuffer\<close> (32-bit slots, changed only through
  \<^verbatim>\<open>Atomics\<close>) and its data in \<^verbatim>\<open>Uint8Array\<close> views over shared byte regions. This theory
  names those types, models the host operations the code calls (the \<^verbatim>\<open>Atomics\<close> read-modify-
  write operations on one slot, and the typed-array \<^verbatim>\<open>view\<close>/\<^verbatim>\<open>set\<close> operations with the
  \<^verbatim>\<open>RangeError\<close> they raise), and holds the generic lemmas the component theories share.
\<close>

section \<open>Types of the model\<close>

type_synonym i32 = "32 word"
type_synonym byte = "8 word"
type_synonym bytes = "byte list"

text \<open>
  Every exception the sources throw, one constructor each. \<open>RangeError\<close> is the host's
  error for a typed-array view that does not fit its buffer.
\<close>

datatype js_error =
    RangeError
  | BadArguments
  | UnexpectedState
  | OversizedChunk
  | UnsupportedMessage
  | IncorrectPayload
  | WorkerError
  | MissingParameter
  | CapacityExceeded
  | TypeError
  | NullFile
  | ReadFailed

named_theorems atomics_simps "evaluation of the Atomics primitives on one slot"
named_theorems view_simps "evaluation of typed-array views"

section \<open>Atomics on one 32-bit slot\<close>

text \<open>
  \<^verbatim>\<open>Atomics.compareExchange(ia, i, e, r)\<close> returns the old value and stores \<open>r\<close> when the
  old value is \<open>e\<close>; \<^verbatim>\<open>Atomics.sub(ia, i, 1)\<close> and \<^verbatim>\<open>Atomics.add(ia, i, 1)\<close> return the
  old value and store it minus or plus one, wrapping at 32 bits. Each is one atomic step;
  the old value is the slot's value before the step, so only the new value is a function.
\<close>

definition cas_new :: "i32 \<Rightarrow> i32 \<Rightarrow> i32 \<Rightarrow> i32" where
  "cas_new v expected replacement = (if v = expected then replacement else v)"

section \<open>Typed-array views\<close>

text \<open>
  \<^verbatim>\<open>new Uint8Array(buf, off, n)\<close> is a window of \<open>n\<close> bytes at \<open>off\<close>; it throws
  \<open>RangeError\<close> when the window passes the end of the buffer. \<^verbatim>\<open>target.set(src)\<close> on a
  window at offset 0 of length \<open>length src\<close> overwrites the first bytes of the buffer.
\<close>

definition ta_view :: "bytes \<Rightarrow> nat \<Rightarrow> nat \<Rightarrow> js_error + bytes" where
  "ta_view buf off n = (if off + n \<le> length buf then Inr (take n (drop off buf)) else Inl RangeError)"

definition ta_set_prefix :: "bytes \<Rightarrow> bytes \<Rightarrow> bytes" where
  "ta_set_prefix buf src = src @ drop (length src) buf"

section \<open>Lemmas on the primitives\<close>

lemma cas_new_hit [atomics_simps]: "cas_new e e r = r"
  by (simp add: cas_new_def)

lemma cas_new_miss [atomics_simps]: "v \<noteq> e \<Longrightarrow> cas_new v e r = v"
  by (simp add: cas_new_def)

lemma i32_consts_distinct [atomics_simps]:
  "(0::i32) \<noteq> 1" "(0::i32) \<noteq> 2" "(1::i32) \<noteq> 2"
  "(1::i32) \<noteq> 0" "(2::i32) \<noteq> 0" "(2::i32) \<noteq> 1"
  by simp_all

lemma i32_dec_consts [atomics_simps]: "(1::i32) - 1 = 0" "(2::i32) - 1 = 1"
  by simp_all

lemma i32_three_cases:
  "(x::i32) \<in> {0, 1, 2} \<Longrightarrow> (x = 0 \<Longrightarrow> P) \<Longrightarrow> (x = 1 \<Longrightarrow> P) \<Longrightarrow> (x = 2 \<Longrightarrow> P) \<Longrightarrow> P"
  by auto

lemma ta_view_ok [view_simps]:
  "off + n \<le> length buf \<Longrightarrow> ta_view buf off n = Inr (take n (drop off buf))"
  by (simp add: ta_view_def)

lemma ta_view_range [view_simps]:
  "\<not> off + n \<le> length buf \<Longrightarrow> ta_view buf off n = Inl RangeError"
  by (simp add: ta_view_def)

lemma ta_view_length: "ta_view buf off n = Inr v \<Longrightarrow> length v = n"
  by (auto simp: ta_view_def split: if_splits)

lemma ta_set_prefix_length [simp]:
  "length src \<le> length buf \<Longrightarrow> length (ta_set_prefix buf src) = length buf"
  by (simp add: ta_set_prefix_def)

lemma take_ta_set_prefix [simp]: "length src = n \<Longrightarrow> take n (ta_set_prefix buf src) = src"
  by (simp add: ta_set_prefix_def)

lemma ta_view_set_prefix [view_simps]:
  "length src = n \<Longrightarrow> n \<le> length buf \<Longrightarrow> ta_view (ta_set_prefix buf src) 0 n = Inr src"
  by (simp add: ta_view_def)

section \<open>Lists of chunks\<close>

text \<open>Facts on splitting a list into consecutive pieces, shared by both directions of the stream.\<close>

lemma sorted_map_upt_mono:
  "(\<And>i j. i \<le> j \<Longrightarrow> f i \<le> f j) \<Longrightarrow> sorted (map f [0..<n])"
  by (induction n) (auto simp: sorted_append)

lemma take_drop_concat_step:
  "off + n \<le> length xs \<Longrightarrow> take off xs @ take n (drop off xs) = take (off + n) xs"
  by (simp add: take_add)

end
