(* ===== verification/Lock.thy ===== *)
theory Lock
  imports Prelude
begin

text \<open>
  The futex-style lock of \<^verbatim>\<open>src/src/lock.js\<close>: parameter checking and initialisation of its
  shared slot, and the concurrent behaviour of \<^verbatim>\<open>lock\<close>, \<^verbatim>\<open>asyncLock\<close>, \<^verbatim>\<open>tryLock\<close> and
  \<^verbatim>\<open>unlock\<close> as an interleaving step relation over any number of threads. Each thread has a
  program counter at an atomic operation of the source; one step runs one atomic operation.
  The lock word has the states 0 (unlocked), 1 (locked) and 2 (locked, possible waiters).
\<close>

section \<open>Construction\<close>

definition LOCK_NUMBYTES :: nat where "LOCK_NUMBYTES = 4"
definition LOCK_ALIGN :: nat where "LOCK_ALIGN = 4"

text \<open>
  \<^verbatim>\<open>_checkParameters\<close>: the buffer is shared, \<^verbatim>\<open>(loc|0) == loc\<close> (an integer that \<^verbatim>\<open>ToInt32\<close>
  keeps, so below \<open>2^31\<close>), non-negative, aligned, and the slot fits in the buffer. The
  location is an integer here; a fractional location is not representable in the model.
\<close>

definition check_parameters :: "bool \<Rightarrow> nat \<Rightarrow> int \<Rightarrow> nat \<Rightarrow> nat \<Rightarrow> bool" where
  "check_parameters is_sab sab_len loc align numbytes \<longleftrightarrow>
     is_sab \<and> -(2 ^ 31) \<le> loc \<and> loc < 2 ^ 31 \<and> 0 \<le> loc \<and>
     loc mod int align = 0 \<and> loc + int numbytes \<le> int sab_len"

text \<open>A \<^verbatim>\<open>Lock\<close> object: the length of its buffer and the slot index \<^verbatim>\<open>loc >>> 2\<close>. The
  constructor checks the parameters, then views the whole buffer as an \<^verbatim>\<open>Int32Array\<close>,
  which throws \<open>RangeError\<close> when the buffer's length is not a multiple of 4.\<close>

record lock_obj =
  lk_sab_len :: nat
  lk_ibase :: nat

definition new_lock :: "bool \<Rightarrow> nat \<Rightarrow> int \<Rightarrow> js_error + lock_obj" where
  "new_lock is_sab sab_len loc =
     (if \<not> check_parameters is_sab sab_len loc LOCK_ALIGN LOCK_NUMBYTES then Inl BadArguments
      else if sab_len mod 4 \<noteq> 0 then Inl RangeError
      else Inr \<lparr>lk_sab_len = sab_len, lk_ibase = nat loc div 4\<rparr>)"

text \<open>\<^verbatim>\<open>Lock.initialize\<close>: check, then store 0 in the slot; the slots are a map from index to word.\<close>

definition lock_initialize :: "bool \<Rightarrow> nat \<Rightarrow> (nat \<Rightarrow> i32) \<Rightarrow> int \<Rightarrow> js_error + ((nat \<Rightarrow> i32) \<times> int)" where
  "lock_initialize is_sab sab_len mem loc =
     (if check_parameters is_sab sab_len loc LOCK_ALIGN LOCK_NUMBYTES
      then Inr (mem(nat loc div 4 := 0), loc)
      else Inl BadArguments)"

section \<open>Threads running the lock operations\<close>

text \<open>
  \<open>Blocking\<close> is \<^verbatim>\<open>lock()\<close>, which parks the thread in \<^verbatim>\<open>Atomics.wait\<close>; \<open>Suspending\<close> is
  \<^verbatim>\<open>asyncLock()\<close>, which awaits \<^verbatim>\<open>Atomics.waitNonblocking\<close> (the polyfill: a fast check of the
  slot, then a helper worker that performs the blocking wait).
\<close>

datatype wait_kind = Blocking | Suspending

text \<open>
  Program counters, each naming the atomic operation the thread performs next:
  \<^item> \<open>Try_Cas\<close>: the \<^verbatim>\<open>compareExchange(0, 1)\<close> of \<^verbatim>\<open>tryLock\<close>;
  \<^item> \<open>Acq_First\<close>: \<^verbatim>\<open>c = compareExchange(0, 1)\<close> at the start of \<^verbatim>\<open>lock\<close>/\<^verbatim>\<open>asyncLock\<close>;
  \<^item> \<open>Acq_Check c\<close>: the loop body \<^verbatim>\<open>if (c == 2 || compareExchange(1, 2) != 0)\<close>;
  \<^item> \<open>Acq_Wait\<close>: \<^verbatim>\<open>Atomics.wait(ia, i, 2)\<close>, or the polyfill's fast check \<^verbatim>\<open>load != 2\<close>;
  \<^item> \<open>Acq_Helper\<close>: the helper worker's \<^verbatim>\<open>Atomics.wait(ia, i, 2)\<close>;
  \<^item> \<open>Acq_Blocked\<close>: parked in the slot's waiter list;
  \<^item> \<open>Acq_Retry\<close>: the loop condition \<^verbatim>\<open>c = compareExchange(0, 2)\<close>;
  \<^item> \<open>Held\<close>: in the critical section;
  \<^item> \<open>Rel_Sub\<close>, \<open>Rel_Store\<close>, \<open>Rel_Notify\<close>: \<^verbatim>\<open>v0 = Atomics.sub(1)\<close>, \<^verbatim>\<open>store(0)\<close> and
    \<^verbatim>\<open>notify(1)\<close> of \<^verbatim>\<open>unlock\<close>.
\<close>

datatype lpc =
    Idle
  | Try_Cas
  | Acq_First wait_kind
  | Acq_Check wait_kind i32
  | Acq_Wait wait_kind
  | Acq_Helper
  | Acq_Blocked wait_kind
  | Acq_Retry wait_kind
  | Held
  | Rel_Sub
  | Rel_Store
  | Rel_Notify

text \<open>
  The shared state: the lock word (the slot \<^verbatim>\<open>iab[ibase]\<close>), each thread's program counter,
  and the slot's list of parked waiters in the order \<^verbatim>\<open>Atomics.notify\<close> wakes them.
\<close>

record 't lock_sys =
  lword :: i32
  pcs :: "'t \<Rightarrow> lpc"
  waitq :: "'t list"

definition lock_init :: "'t lock_sys" where
  "lock_init = \<lparr>lword = 0, pcs = (\<lambda>_. Idle), waitq = []\<rparr>"

fun wake :: "lpc \<Rightarrow> lpc" where
  "wake (Acq_Blocked k) = Acq_Retry k"
| "wake p = p"

definition set_pc :: "'t \<Rightarrow> lpc \<Rightarrow> 't lock_sys \<Rightarrow> 't lock_sys" where
  "set_pc t p s = s\<lparr>pcs := (pcs s)(t := p)\<rparr>"

text \<open>\<^verbatim>\<open>Atomics.wait(ia, i, 2)\<close> as one atomic step: park when the slot holds 2, else return.\<close>

definition futex_wait2 :: "'t \<Rightarrow> wait_kind \<Rightarrow> 't lock_sys \<Rightarrow> 't lock_sys" where
  "futex_wait2 t k s =
     (if lword s = 2 then s\<lparr>pcs := (pcs s)(t := Acq_Blocked k), waitq := waitq s @ [t]\<rparr>
      else set_pc t (Acq_Retry k) s)"

text \<open>\<^verbatim>\<open>Atomics.notify(ia, i, 1)\<close>: wake the first parked waiter, if any.\<close>

definition futex_notify1 :: "'t lock_sys \<Rightarrow> 't lock_sys" where
  "futex_notify1 s =
     (case waitq s of
        [] \<Rightarrow> s
      | u # us \<Rightarrow> s\<lparr>pcs := (pcs s)(u := wake (pcs s u)), waitq := us\<rparr>)"

text \<open>One atomic step of thread \<open>t\<close>; \<open>None\<close> when it has no step of its own to take.\<close>

definition lock_exec :: "'t \<Rightarrow> 't lock_sys \<Rightarrow> 't lock_sys option" where
  "lock_exec t s =
     (let w = lword s in
      case pcs s t of
        Try_Cas \<Rightarrow>
          Some (set_pc t (if w = 0 then Held else Idle) (s\<lparr>lword := cas_new w 0 1\<rparr>))
      | Acq_First k \<Rightarrow>
          Some (set_pc t (if w = 0 then Held else Acq_Check k w) (s\<lparr>lword := cas_new w 0 1\<rparr>))
      | Acq_Check k c \<Rightarrow>
          (if c = 2 then Some (set_pc t (Acq_Wait k) s)
           else Some (set_pc t (if w \<noteq> 0 then Acq_Wait k else Acq_Retry k)
                        (s\<lparr>lword := cas_new w 1 2\<rparr>)))
      | Acq_Wait Blocking \<Rightarrow> Some (futex_wait2 t Blocking s)
      | Acq_Wait Suspending \<Rightarrow>
          Some (set_pc t (if w \<noteq> 2 then Acq_Retry Suspending else Acq_Helper) s)
      | Acq_Helper \<Rightarrow> Some (futex_wait2 t Suspending s)
      | Acq_Retry k \<Rightarrow>
          Some (set_pc t (if w = 0 then Held else Acq_Check k w) (s\<lparr>lword := cas_new w 0 2\<rparr>))
      | Rel_Sub \<Rightarrow>
          Some (set_pc t (if w \<noteq> 1 then Rel_Store else Idle) (s\<lparr>lword := w - 1\<rparr>))
      | Rel_Store \<Rightarrow> Some (set_pc t Rel_Notify (s\<lparr>lword := 0\<rparr>))
      | Rel_Notify \<Rightarrow> Some (futex_notify1 (set_pc t Idle s))
      | _ \<Rightarrow> None)"

text \<open>
  A step is an atomic step of some thread, or a client call: an idle thread calls
  \<^verbatim>\<open>lock\<close>, \<^verbatim>\<open>asyncLock\<close> or \<^verbatim>\<open>tryLock\<close>, and a thread in its critical section calls
  \<^verbatim>\<open>unlock\<close> (the discipline of the source: nobody unlocks a lock that is not held).
\<close>

inductive lock_step :: "'t lock_sys \<Rightarrow> 't lock_sys \<Rightarrow> bool" where
  exec: "lock_exec t s = Some s' \<Longrightarrow> lock_step s s'"
| call_lock: "pcs s t = Idle \<Longrightarrow> lock_step s (set_pc t (Acq_First k) s)"
| call_try: "pcs s t = Idle \<Longrightarrow> lock_step s (set_pc t Try_Cas s)"
| call_unlock: "pcs s t = Held \<Longrightarrow> lock_step s (set_pc t Rel_Sub s)"

inductive lock_reach :: "'t lock_sys \<Rightarrow> bool" where
  init: "lock_reach lock_init"
| step: "lock_reach s \<Longrightarrow> lock_step s s' \<Longrightarrow> lock_reach s'"

section \<open>Invariant and abstract specification\<close>

text \<open>
  A thread owns the lock from the successful compare-and-swap until the \<^verbatim>\<open>store(0)\<close> of its
  \<^verbatim>\<open>unlock\<close> (or the \<^verbatim>\<open>sub\<close>, when that leaves 0). A parked thread is in the waiter list.
  A thread \<open>wakes_later\<close> when it is on the contended path of \<^verbatim>\<open>lock\<close>, which ends by
  writing 2 into the word or parking while it holds 2, or between the \<^verbatim>\<open>sub\<close> and the
  \<^verbatim>\<open>notify\<close> of an \<^verbatim>\<open>unlock\<close> that saw contention.
\<close>

definition owns :: "lpc \<Rightarrow> bool" where
  "owns p \<longleftrightarrow> p = Held \<or> p = Rel_Sub \<or> p = Rel_Store"

fun parked :: "lpc \<Rightarrow> bool" where
  "parked (Acq_Blocked k) = True"
| "parked p = False"

fun wakes_later :: "lpc \<Rightarrow> bool" where
  "wakes_later (Acq_Check k c) = True"
| "wakes_later (Acq_Wait k) = True"
| "wakes_later Acq_Helper = True"
| "wakes_later (Acq_Retry k) = True"
| "wakes_later Rel_Store = True"
| "wakes_later Rel_Notify = True"
| "wakes_later p = False"

text \<open>
  The abstract specification of a mutex: the set of owners, which a step leaves alone,
  fills from empty with one thread, or empties from one thread.
\<close>

definition owners :: "'t lock_sys \<Rightarrow> 't set" where
  "owners s = {t. owns (pcs s t)}"

inductive mutex_step :: "'t set \<Rightarrow> 't set \<Rightarrow> bool" where
  stutter: "mutex_step A A"
| acquire: "mutex_step {} {t}"
| release: "mutex_step {t} {}"

text \<open>
  The invariant: the word is 0, 1 or 2; at most one owner; the word is 0 exactly when
  nobody owns the lock; the waiter list holds exactly the parked threads, once each; and
  while somebody is parked, the word is 2 or some thread will still write 2 or notify.
\<close>

definition lock_inv :: "'t lock_sys \<Rightarrow> bool" where
  "lock_inv s \<longleftrightarrow>
     lword s \<in> {0, 1, 2} \<and>
     (\<forall>t u. owns (pcs s t) \<longrightarrow> owns (pcs s u) \<longrightarrow> t = u) \<and>
     (lword s = 0 \<longleftrightarrow> (\<forall>t. \<not> owns (pcs s t))) \<and>
     distinct (waitq s) \<and> (\<forall>t. t \<in> set (waitq s) \<longleftrightarrow> parked (pcs s t)) \<and>
     (waitq s \<noteq> [] \<longrightarrow> lword s = 2 \<or> (\<exists>t. wakes_later (pcs s t)))"

text \<open>Concrete states used by the witnesses: one holder; one holder and one parked waiter.\<close>

definition held_state :: "nat lock_sys" where
  "held_state = \<lparr>lword = 1, pcs = (\<lambda>_. Idle)(0 := Held), waitq = []\<rparr>"

definition contended_state :: "nat lock_sys" where
  "contended_state =
     \<lparr>lword = 2, pcs = (\<lambda>_. Idle)(0 := Held, 1 := Acq_Blocked Blocking), waitq = [1]\<rparr>"

section \<open>Preservation of the invariant\<close>

lemma owns_simps [simp]:
  "owns Held" "owns Rel_Sub" "owns Rel_Store" "\<not> owns Idle" "\<not> owns Try_Cas"
  "\<not> owns (Acq_First k)" "\<not> owns (Acq_Check k c)" "\<not> owns (Acq_Wait k)" "\<not> owns Acq_Helper"
  "\<not> owns (Acq_Blocked k)" "\<not> owns (Acq_Retry k)" "\<not> owns Rel_Notify"
  by (simp_all add: owns_def)

lemma inv_word: "lock_inv s \<Longrightarrow> lword s \<in> {0, 1, 2}"
  unfolding lock_inv_def by blast
lemma inv_unique: "lock_inv s \<Longrightarrow> owns (pcs s t) \<Longrightarrow> owns (pcs s u) \<Longrightarrow> t = u"
  unfolding lock_inv_def by blast
lemma inv_free: "lock_inv s \<Longrightarrow> lword s = 0 \<Longrightarrow> \<not> owns (pcs s u)"
  unfolding lock_inv_def by blast
lemma inv_taken: "lock_inv s \<Longrightarrow> lword s \<noteq> 0 \<Longrightarrow> \<exists>u. owns (pcs s u)"
  unfolding lock_inv_def by blast
lemma inv_queue: "lock_inv s \<Longrightarrow> t \<in> set (waitq s) \<longleftrightarrow> parked (pcs s t)"
  unfolding lock_inv_def by blast
lemma inv_distinct: "lock_inv s \<Longrightarrow> distinct (waitq s)"
  unfolding lock_inv_def by blast
lemma inv_wake: "lock_inv s \<Longrightarrow> waitq s \<noteq> [] \<Longrightarrow> lword s = 2 \<or> (\<exists>t. wakes_later (pcs s t))"
  unfolding lock_inv_def by blast

lemma lock_inv_move:
  assumes inv: "lock_inv s"
    and p: "\<not> parked (pcs s t)" and p': "\<not> parked p'"
    and word: "w' \<in> {0, 1, 2}"
    and own: "\<And>u. owns p' \<Longrightarrow> u \<noteq> t \<Longrightarrow> \<not> owns (pcs s u)"
    and zero: "w' = 0 \<longleftrightarrow> (\<not> owns p' \<and> (\<forall>u. u \<noteq> t \<longrightarrow> \<not> owns (pcs s u)))"
    and wake: "waitq s \<noteq> [] \<Longrightarrow> w' = 2 \<or> wakes_later p' \<or> (\<exists>u. u \<noteq> t \<and> wakes_later (pcs s u))"
  shows "lock_inv (set_pc t p' (s\<lparr>lword := w'\<rparr>))"
proof -
  have q: "t \<notin> set (waitq s)" using inv p by (simp add: inv_queue)
  have ex: "\<forall>a b. owns (((pcs s)(t := p')) a) \<longrightarrow> owns (((pcs s)(t := p')) b) \<longrightarrow> a = b"
  proof (intro allI impI)
    fix a b
    assume a: "owns (((pcs s)(t := p')) a)" and b: "owns (((pcs s)(t := p')) b)"
    show "a = b"
    proof (cases "a = t"; cases "b = t")
      assume "a = t" "b \<noteq> t" with a b own show ?thesis by simp
    next
      assume "a \<noteq> t" "b = t" with a b own show ?thesis by simp
    next
      assume "a \<noteq> t" "b \<noteq> t" with a b inv_unique [OF inv] show ?thesis by simp
    qed simp
  qed
  have zr: "w' = 0 \<longleftrightarrow> (\<forall>a. \<not> owns (((pcs s)(t := p')) a))"
    using zero by (auto simp: fun_upd_def)
  have qu: "\<forall>a. a \<in> set (waitq s) \<longleftrightarrow> parked (((pcs s)(t := p')) a)"
    using q p' inv_queue [OF inv] by (auto simp: fun_upd_def)
  have wk: "waitq s \<noteq> [] \<longrightarrow> w' = 2 \<or> (\<exists>a. wakes_later (((pcs s)(t := p')) a))"
    using wake by (auto simp: fun_upd_def)
  have st: "lword (set_pc t p' (s\<lparr>lword := w'\<rparr>)) = w'"
    "pcs (set_pc t p' (s\<lparr>lword := w'\<rparr>)) = (pcs s)(t := p')"
    "waitq (set_pc t p' (s\<lparr>lword := w'\<rparr>)) = waitq s"
    by (simp_all add: set_pc_def)
  show ?thesis
    unfolding lock_inv_def st using word ex zr qu wk inv_distinct [OF inv] by blast
qed

lemma lock_inv_cas_acquire:
  assumes inv: "lock_inv s"
    and t: "\<not> owns (pcs s t)" "\<not> parked (pcs s t)"
    and v: "v \<in> {1, 2}"
    and q: "\<And>w. \<not> owns (q w)" "\<And>w. \<not> parked (q w)"
    and wl: "wakes_later (pcs s t) \<Longrightarrow> v = 2 \<and> (\<forall>w. wakes_later (q w))"
  shows "lock_inv (set_pc t (if lword s = 0 then Held else q (lword s))
                     (s\<lparr>lword := cas_new (lword s) 0 v\<rparr>))"
proof (cases "lword s = 0")
  case True
  have eq: "set_pc t (if lword s = 0 then Held else q (lword s)) (s\<lparr>lword := cas_new (lword s) 0 v\<rparr>)
      = set_pc t Held (s\<lparr>lword := v\<rparr>)"
    using True by (simp add: cas_new_def)
  have "lock_inv (set_pc t Held (s\<lparr>lword := v\<rparr>))"
  proof (rule lock_inv_move [OF inv t(2)])
    show "v \<in> {0, 1, 2}" using v by auto
    show "\<And>u. owns Held \<Longrightarrow> u \<noteq> t \<Longrightarrow> \<not> owns (pcs s u)" using inv_free [OF inv True] by blast
    show "(v = 0) = (\<not> owns Held \<and> (\<forall>u. u \<noteq> t \<longrightarrow> \<not> owns (pcs s u)))" using v by auto
    show "v = 2 \<or> wakes_later Held \<or> (\<exists>u. u \<noteq> t \<and> wakes_later (pcs s u))"
      if ne: "waitq s \<noteq> []"
    proof -
      from inv_wake [OF inv ne] True obtain u where u: "wakes_later (pcs s u)" by auto
      show ?thesis using u wl by (cases "u = t") auto
    qed
  qed simp
  then show ?thesis using eq by simp
next
  case False
  obtain u where u: "owns (pcs s u)" using inv_taken [OF inv False] by blast
  with t have "u \<noteq> t" by auto
  have eq: "set_pc t (if lword s = 0 then Held else q (lword s)) (s\<lparr>lword := cas_new (lword s) 0 v\<rparr>)
      = set_pc t (q (lword s)) (s\<lparr>lword := lword s\<rparr>)"
    using False by (simp add: cas_new_def)
  have "lock_inv (set_pc t (q (lword s)) (s\<lparr>lword := lword s\<rparr>))"
  proof (rule lock_inv_move [OF inv t(2)])
    show "lword s \<in> {0, 1, 2}" by (rule inv_word [OF inv])
    show "(lword s = 0) = (\<not> owns (q (lword s)) \<and> (\<forall>u. u \<noteq> t \<longrightarrow> \<not> owns (pcs s u)))"
      using False u \<open>u \<noteq> t\<close> by blast
    show "waitq s \<noteq> [] \<Longrightarrow> lword s = 2 \<or> wakes_later (q (lword s)) \<or> (\<exists>u. u \<noteq> t \<and> wakes_later (pcs s u))"
      using inv_wake [OF inv] wl by metis
  qed (use q in auto)
  then show ?thesis using eq by simp
qed

lemma lock_inv_contender_move:
  assumes inv: "lock_inv s"
    and t: "\<not> owns (pcs s t)" "\<not> parked (pcs s t)"
    and q: "\<not> owns q" "\<not> parked q" "wakes_later q"
    and w: "w' = lword s \<or> (lword s = 1 \<and> w' = 2)"
  shows "lock_inv (set_pc t q (s\<lparr>lword := w'\<rparr>))"
proof (rule lock_inv_move [OF inv t(2) q(2)])
  show "w' \<in> {0, 1, 2}" using w inv_word [OF inv] by auto
  have "lword s = 0 \<longleftrightarrow> (\<forall>u. u \<noteq> t \<longrightarrow> \<not> owns (pcs s u))"
    using inv t(1) unfolding lock_inv_def by metis
  then show "(w' = 0) = (\<not> owns q \<and> (\<forall>u. u \<noteq> t \<longrightarrow> \<not> owns (pcs s u)))"
    using w q(1) by auto
qed (use q in auto)

lemma lock_inv_release_sub:
  assumes inv: "lock_inv s" and t: "pcs s t = Rel_Sub"
  shows "lock_inv (set_pc t (if lword s \<noteq> 1 then Rel_Store else Idle) (s\<lparr>lword := lword s - 1\<rparr>))"
proof -
  have others: "\<And>u. u \<noteq> t \<Longrightarrow> \<not> owns (pcs s u)"
    using inv_unique [OF inv] t by (metis owns_simps(2))
  have w: "lword s = 1 \<or> lword s = 2"
    using inv_word [OF inv] inv_free [OF inv, of t] t by auto
  then show ?thesis
  proof
    assume w1: "lword s = 1"
    have "lock_inv (set_pc t Idle (s\<lparr>lword := 0\<rparr>))"
    proof (rule lock_inv_move [OF inv])
      show "0 = 2 \<or> wakes_later Idle \<or> (\<exists>u. u \<noteq> t \<and> wakes_later (pcs s u))"
        if ne: "waitq s \<noteq> []"
      proof -
        from inv_wake [OF inv ne] w1 obtain u where u: "wakes_later (pcs s u)" by auto
        with t have "u \<noteq> t" by auto
        with u show ?thesis by blast
      qed
    qed (use t others in auto)
    then show ?thesis using w1 by simp
  next
    assume w2: "lword s = 2"
    show ?thesis
      using t w2 others by (intro lock_inv_move [OF inv]) simp_all
  qed
qed

lemma lock_inv_release_store:
  assumes inv: "lock_inv s" and t: "pcs s t = Rel_Store"
  shows "lock_inv (set_pc t Rel_Notify (s\<lparr>lword := 0\<rparr>))"
proof -
  have others: "\<And>u. u \<noteq> t \<Longrightarrow> \<not> owns (pcs s u)"
    using inv_unique [OF inv] t by (metis owns_simps(3))
  show ?thesis
    using t others by (intro lock_inv_move [OF inv]) simp_all
qed

lemma lock_inv_park:
  assumes inv: "lock_inv s" and t: "\<not> owns (pcs s t)" "\<not> parked (pcs s t)" and w: "lword s = 2"
  shows "lock_inv (s\<lparr>pcs := (pcs s)(t := Acq_Blocked k), waitq := waitq s @ [t]\<rparr>)"
proof -
  let ?f = "(pcs s)(t := Acq_Blocked k)"
  have own: "\<And>a. owns (?f a) \<longleftrightarrow> owns (pcs s a)" using t(1) by simp
  obtain u where "owns (pcs s u)" using inv_taken [OF inv] w by auto
  then have taken: "\<not> (\<forall>a. \<not> owns (?f a))" using own by blast
  have notin: "t \<notin> set (waitq s)" using inv_queue [OF inv] t(2) by blast
  have q: "\<forall>a. a \<in> set (waitq s @ [t]) \<longleftrightarrow> parked (?f a)"
    using inv_queue [OF inv] by auto
  have uniq: "\<forall>a b. owns (?f a) \<longrightarrow> owns (?f b) \<longrightarrow> a = b"
    by (simp only: own) (use inv_unique [OF inv] in blast)
  have dist: "distinct (waitq s @ [t])" using inv_distinct [OF inv] notin by simp
  have st: "lword (s\<lparr>pcs := ?f, waitq := waitq s @ [t]\<rparr>) = lword s"
    "pcs (s\<lparr>pcs := ?f, waitq := waitq s @ [t]\<rparr>) = ?f"
    "waitq (s\<lparr>pcs := ?f, waitq := waitq s @ [t]\<rparr>) = waitq s @ [t]"
    by simp_all
  have zero: "lword s = 0 \<longleftrightarrow> (\<forall>a. \<not> owns (?f a))" using w taken by simp
  have wk: "waitq s @ [t] \<noteq> [] \<longrightarrow> lword s = 2 \<or> (\<exists>a. wakes_later (?f a))" using w by simp
  show ?thesis
    unfolding lock_inv_def st
    by (intro conjI) (rule inv_word [OF inv], rule uniq, rule zero, rule dist, rule q, rule wk)
qed

lemma lock_inv_notify:
  assumes inv: "lock_inv s" and t: "pcs s t = Rel_Notify"
  shows "lock_inv (futex_notify1 (set_pc t Idle s))"
proof (cases "waitq s")
  case Nil
  have "lword s = 0 \<longleftrightarrow> (\<forall>u. u \<noteq> t \<longrightarrow> \<not> owns (pcs s u))"
    using inv t unfolding lock_inv_def by (metis owns_simps(12))
  then have "lock_inv (set_pc t Idle (s\<lparr>lword := lword s\<rparr>))"
    using t Nil by (intro lock_inv_move [OF inv] inv_word [OF inv]) auto
  then show ?thesis using Nil by (simp add: futex_notify1_def set_pc_def)
next
  case (Cons u us)
  then have "parked (pcs s u)" using inv_queue [OF inv, of u] by simp
  then obtain k where k: "pcs s u = Acq_Blocked k" by (cases "pcs s u") auto
  with t have ut: "u \<noteq> t" by auto
  let ?f = "(pcs s)(t := Idle, u := Acq_Retry k)"
  have eq: "futex_notify1 (set_pc t Idle s) = s\<lparr>pcs := ?f, waitq := us\<rparr>"
    using Cons k ut by (simp add: futex_notify1_def set_pc_def fun_upd_twist)
  have own: "\<And>a. owns (?f a) \<longleftrightarrow> owns (pcs s a)" using t k by simp
  have dist: "distinct us" "u \<notin> set us" using inv_distinct [OF inv] Cons by auto
  have tq: "t \<notin> set (waitq s)" using inv_queue [OF inv] t by simp
  have q: "\<forall>a. a \<in> set us \<longleftrightarrow> parked (?f a)"
    using inv_queue [OF inv] Cons dist(2) tq by auto
  have wk: "\<exists>a. wakes_later (?f a)" by (rule exI [of _ u]) simp
  have "lword s = 0 \<longleftrightarrow> (\<forall>a. \<not> owns (pcs s a))"
    using inv unfolding lock_inv_def by blast
  then have zero: "lword s = 0 \<longleftrightarrow> (\<forall>a. \<not> owns (?f a))"
    by (simp only: own)
  have uniq: "\<forall>a b. owns (?f a) \<longrightarrow> owns (?f b) \<longrightarrow> a = b"
    by (simp only: own) (use inv_unique [OF inv] in blast)
  have st: "lword (s\<lparr>pcs := ?f, waitq := us\<rparr>) = lword s"
    "pcs (s\<lparr>pcs := ?f, waitq := us\<rparr>) = ?f" "waitq (s\<lparr>pcs := ?f, waitq := us\<rparr>) = us"
    by simp_all
  show ?thesis
    unfolding eq lock_inv_def st
    by (intro conjI) (rule inv_word [OF inv], rule uniq, rule zero, rule dist(1), rule q, use wk in blast)
qed

lemma lock_exec_inv:
  assumes ex: "lock_exec t s = Some s'" and inv: "lock_inv s"
  shows "lock_inv s'"
proof (cases "pcs s t")
  case Try_Cas
  with ex have "s' = set_pc t (if lword s = 0 then Held else (\<lambda>_. Idle) (lword s))
                       (s\<lparr>lword := cas_new (lword s) 0 1\<rparr>)"
    by (simp add: lock_exec_def Let_def)
  moreover have "lock_inv (set_pc t (if lword s = 0 then Held else (\<lambda>_. Idle) (lword s))
                       (s\<lparr>lword := cas_new (lword s) 0 1\<rparr>))"
    by (rule lock_inv_cas_acquire [OF inv]) (use Try_Cas in simp_all)
  ultimately show ?thesis by (simp only:)
next
  case (Acq_First k)
  with ex have "s' = set_pc t (if lword s = 0 then Held else (\<lambda>w. Acq_Check k w) (lword s))
                       (s\<lparr>lword := cas_new (lword s) 0 1\<rparr>)"
    by (simp add: lock_exec_def Let_def)
  moreover have "lock_inv (set_pc t (if lword s = 0 then Held else (\<lambda>w. Acq_Check k w) (lword s))
                       (s\<lparr>lword := cas_new (lword s) 0 1\<rparr>))"
    by (rule lock_inv_cas_acquire [OF inv]) (use Acq_First in simp_all)
  ultimately show ?thesis by (simp only:)
next
  case (Acq_Retry k)
  with ex have "s' = set_pc t (if lword s = 0 then Held else (\<lambda>w. Acq_Check k w) (lword s))
                       (s\<lparr>lword := cas_new (lword s) 0 2\<rparr>)"
    by (simp add: lock_exec_def Let_def)
  moreover have "lock_inv (set_pc t (if lword s = 0 then Held else (\<lambda>w. Acq_Check k w) (lword s))
                       (s\<lparr>lword := cas_new (lword s) 0 2\<rparr>))"
    by (rule lock_inv_cas_acquire [OF inv]) (use Acq_Retry in simp_all)
  ultimately show ?thesis by (simp only:)
next
  case (Acq_Check k c)
  show ?thesis
  proof (cases "c = 2")
    case True
    with ex Acq_Check have "s' = set_pc t (Acq_Wait k) (s\<lparr>lword := lword s\<rparr>)"
      by (simp add: lock_exec_def Let_def)
    moreover have "lock_inv (set_pc t (Acq_Wait k) (s\<lparr>lword := lword s\<rparr>))"
      by (rule lock_inv_contender_move [OF inv]) (use Acq_Check in simp_all)
    ultimately show ?thesis by (simp only:)
  next
    case False
    let ?q = "if lword s \<noteq> 0 then Acq_Wait k else Acq_Retry k"
    from False ex Acq_Check have "s' = set_pc t ?q (s\<lparr>lword := cas_new (lword s) 1 2\<rparr>)"
      by (simp add: lock_exec_def Let_def)
    moreover have "lock_inv (set_pc t ?q (s\<lparr>lword := cas_new (lword s) 1 2\<rparr>))"
      by (rule lock_inv_contender_move [OF inv]) (use Acq_Check in \<open>simp_all add: cas_new_def\<close>)
    ultimately show ?thesis by (simp only:)
  qed
next
  case (Acq_Wait k)
  show ?thesis
  proof (cases "lword s = 2 \<and> k = Blocking")
    case True
    with ex Acq_Wait have "s' = s\<lparr>pcs := (pcs s)(t := Acq_Blocked Blocking), waitq := waitq s @ [t]\<rparr>"
      by (simp add: lock_exec_def Let_def futex_wait2_def)
    then show ?thesis using Acq_Wait True by (simp add: lock_inv_park [OF inv])
  next
    case False
    let ?q = "if lword s = 2 then Acq_Helper else Acq_Retry k"
    from False ex Acq_Wait have "s' = set_pc t ?q (s\<lparr>lword := lword s\<rparr>)"
      by (cases k) (auto simp add: lock_exec_def Let_def futex_wait2_def split: if_splits)
    moreover have "lock_inv (set_pc t ?q (s\<lparr>lword := lword s\<rparr>))"
      by (rule lock_inv_contender_move [OF inv]) (use Acq_Wait in simp_all)
    ultimately show ?thesis by (simp only:)
  qed
next
  case Acq_Helper
  show ?thesis
  proof (cases "lword s = 2")
    case True
    with ex Acq_Helper have "s' = s\<lparr>pcs := (pcs s)(t := Acq_Blocked Suspending), waitq := waitq s @ [t]\<rparr>"
      by (simp add: lock_exec_def Let_def futex_wait2_def)
    then show ?thesis using Acq_Helper True by (simp add: lock_inv_park [OF inv])
  next
    case False
    with ex Acq_Helper have "s' = set_pc t (Acq_Retry Suspending) (s\<lparr>lword := lword s\<rparr>)"
      by (simp add: lock_exec_def Let_def futex_wait2_def)
    moreover have "lock_inv (set_pc t (Acq_Retry Suspending) (s\<lparr>lword := lword s\<rparr>))"
      by (rule lock_inv_contender_move [OF inv]) (use Acq_Helper in simp_all)
    ultimately show ?thesis by (simp only:)
  qed
next
  case Rel_Sub
  with ex have "s' = set_pc t (if lword s \<noteq> 1 then Rel_Store else Idle) (s\<lparr>lword := lword s - 1\<rparr>)"
    by (simp add: lock_exec_def Let_def)
  then show ?thesis using lock_inv_release_sub [OF inv Rel_Sub] by simp
next
  case Rel_Store
  with ex have "s' = set_pc t Rel_Notify (s\<lparr>lword := 0\<rparr>)"
    by (simp add: lock_exec_def Let_def)
  then show ?thesis using lock_inv_release_store [OF inv Rel_Store] by simp
next
  case Rel_Notify
  with ex have "s' = futex_notify1 (set_pc t Idle s)"
    by (simp add: lock_exec_def Let_def)
  then show ?thesis using lock_inv_notify [OF inv Rel_Notify] by simp
qed (use ex in \<open>simp_all add: lock_exec_def Let_def\<close>)

lemma lock_inv_call:
  assumes inv: "lock_inv s" and t: "\<not> wakes_later (pcs s t)" "\<not> parked (pcs s t)"
    and p': "\<not> parked p'" "owns p' \<longleftrightarrow> owns (pcs s t)"
  shows "lock_inv (set_pc t p' s)"
proof -
  have "lock_inv (set_pc t p' (s\<lparr>lword := lword s\<rparr>))"
  proof (rule lock_inv_move [OF inv t(2) p'(1) inv_word [OF inv]])
    show "\<not> owns (pcs s u)" if "owns p'" "u \<noteq> t" for u
      using that p'(2) inv_unique [OF inv] by blast
    have "lword s = 0 \<longleftrightarrow> (\<forall>u. \<not> owns (pcs s u))" using inv unfolding lock_inv_def by blast
    then show "(lword s = 0) = (\<not> owns p' \<and> (\<forall>u. u \<noteq> t \<longrightarrow> \<not> owns (pcs s u)))"
      using p'(2) by metis
    show "lword s = 2 \<or> wakes_later p' \<or> (\<exists>u. u \<noteq> t \<and> wakes_later (pcs s u))"
      if "waitq s \<noteq> []" using inv_wake [OF inv that] t(1) by metis
  qed
  then show ?thesis by simp
qed

lemma lock_step_inv: "lock_step s s' \<Longrightarrow> lock_inv s \<Longrightarrow> lock_inv s'"
proof (induction rule: lock_step.induct)
  case (exec t s s')
  then show ?case by (rule lock_exec_inv)
next
  case (call_lock s t k)
  then show ?case by (intro lock_inv_call) simp_all
next
  case (call_try s t)
  then show ?case by (intro lock_inv_call) simp_all
next
  case (call_unlock s t)
  then show ?case by (intro lock_inv_call) simp_all
qed

lemma lock_inv_init: "lock_inv lock_init"
  by (simp add: lock_inv_def lock_init_def)

lemma lock_reach_inv: "lock_reach s \<Longrightarrow> lock_inv s"
proof (induction rule: lock_reach.induct)
  case init
  show ?case by (rule lock_inv_init)
next
  case (step s s')
  then show ?case by (blast intro: lock_step_inv)
qed

section \<open>The constructor\<close>


section \<open>Mutual exclusion, no lost wake-up, refinement\<close>

text \<open>
  C1: Mutual exclusion. In every reachable state of any number of threads running
  \<^verbatim>\<open>lock\<close>, \<^verbatim>\<open>asyncLock\<close>, \<^verbatim>\<open>tryLock\<close> and \<^verbatim>\<open>unlock\<close> interleaved at their atomic
  operations, at most one thread is in its critical section.
\<close>

theorem lock_mutual_exclusion:
  assumes "lock_reach s" and "pcs s t = Held" and "pcs s u = Held"
  shows "t = u"
  using inv_unique [OF lock_reach_inv [OF assms(1)]] assms(2,3) by simp

text \<open>
  C2: No lost wake-up. Whenever some thread is parked in the lock word's waiter list, some
  thread owns the lock or is at a step that will write 2 into the word or notify, so a
  parked thread is never left with nobody to wake it.
\<close>

theorem lock_no_lost_wakeup:
  assumes "lock_reach s" and "waitq s \<noteq> []"
  shows "\<exists>t. owns (pcs s t) \<or> wakes_later (pcs s t)"
proof -
  have inv: "lock_inv s" using assms(1) by (rule lock_reach_inv)
  show ?thesis
  proof (cases "lword s = 2")
    case True
    then show ?thesis using inv_taken [OF inv] by auto
  next
    case False
    then show ?thesis using inv_wake [OF inv assms(2)] by blast
  qed
qed

lemma lock_reach_exec: "lock_reach s \<Longrightarrow> lock_exec t s = Some s' \<Longrightarrow> lock_reach s'"
  by (blast intro: lock_reach.step lock_step.exec)

lemma lock_reach_call_lock: "lock_reach s \<Longrightarrow> pcs s t = Idle \<Longrightarrow> lock_reach (set_pc t (Acq_First k) s)"
  by (blast intro: lock_reach.step lock_step.call_lock)

lemma lock_reach_held_state: "lock_reach held_state"
proof -
  have r1: "lock_reach (set_pc (0::nat) (Acq_First Blocking) lock_init)"
    by (rule lock_reach_call_lock [OF lock_reach.init]) (simp add: lock_init_def)
  have "lock_exec 0 (set_pc (0::nat) (Acq_First Blocking) lock_init) = Some held_state"
    by (simp add: lock_exec_def set_pc_def lock_init_def held_state_def cas_new_def)
  with r1 show ?thesis by (rule lock_reach_exec)
qed


theorem lock_mutual_exclusion_witness: "lock_reach held_state \<and> pcs held_state 0 = Held \<and> (0::nat) = 0"
proof -
  have h: "pcs held_state 0 = Held" by (simp add: held_state_def)
  show ?thesis using lock_mutual_exclusion [OF lock_reach_held_state h h] lock_reach_held_state h by simp
qed

lemma lock_reach_contended_state: "lock_reach contended_state"
proof -
  let ?s1 = "set_pc (1::nat) (Acq_First Blocking) held_state"
  let ?s2 = "\<lparr>lword = 1, pcs = (\<lambda>_. Idle)(0 := Held, 1 := Acq_Check Blocking 1), waitq = []\<rparr> :: nat lock_sys"
  let ?s3 = "\<lparr>lword = 2, pcs = (\<lambda>_. Idle)(0 := Held, 1 := Acq_Wait Blocking), waitq = []\<rparr> :: nat lock_sys"
  have r1: "lock_reach ?s1"
    by (rule lock_reach_call_lock [OF lock_reach_held_state]) (simp add: held_state_def)
  have "lock_exec 1 ?s1 = Some ?s2"
    by (simp add: lock_exec_def set_pc_def held_state_def cas_new_def)
  with r1 have r2: "lock_reach ?s2" by (rule lock_reach_exec)
  have "lock_exec 1 ?s2 = Some ?s3"
    by (simp add: lock_exec_def set_pc_def cas_new_def)
  with r2 have r3: "lock_reach ?s3" by (rule lock_reach_exec)
  have "lock_exec 1 ?s3 = Some contended_state"
    by (simp add: lock_exec_def futex_wait2_def contended_state_def)
  with r3 show ?thesis by (rule lock_reach_exec)
qed

theorem lock_no_lost_wakeup_witness:
  "lock_reach contended_state \<and> waitq contended_state \<noteq> [] \<and>
   (\<exists>t. owns (pcs contended_state t) \<or> wakes_later (pcs contended_state t))"
proof -
  have q: "waitq contended_state \<noteq> []" by (simp add: contended_state_def)
  show ?thesis
    using lock_no_lost_wakeup [OF lock_reach_contended_state q] lock_reach_contended_state q by blast
qed

lemma owns_wake [simp]: "owns (wake p) = owns p"
  by (cases p) simp_all

lemma pcs_set_pc_other: "u \<noteq> t \<Longrightarrow> pcs (set_pc t p s) u = pcs s u"
  by (simp add: set_pc_def)

lemma lock_exec_frame:
  assumes ex: "lock_exec t s = Some s'" and u: "u \<noteq> t"
  shows "pcs s' u = pcs s u \<or> pcs s' u = wake (pcs s u)"
proof (cases "pcs s t")
  case (Acq_Wait k)
  with ex u show ?thesis
    by (cases k) (auto simp: lock_exec_def futex_wait2_def set_pc_def split: if_split_asm)
next
  case Acq_Helper
  with ex u show ?thesis by (auto simp: lock_exec_def futex_wait2_def set_pc_def split: if_split_asm)
next
  case Rel_Notify
  with ex u show ?thesis
    by (cases "waitq s") (auto simp: lock_exec_def futex_notify1_def set_pc_def)
qed (use ex u in \<open>auto simp: lock_exec_def Let_def set_pc_def split: if_split_asm\<close>)

lemma lock_exec_others:
  assumes "lock_exec t s = Some s'" and "u \<noteq> t"
  shows "owns (pcs s' u) = owns (pcs s u)"
  using lock_exec_frame [OF assms] by auto

lemma lock_step_one_mover:
  "lock_step s s' \<Longrightarrow> \<exists>t. \<forall>u. u \<noteq> t \<longrightarrow> owns (pcs s' u) = owns (pcs s u)"
proof (induction rule: lock_step.induct)
  case (exec t s s')
  show ?case
    by (rule exI [of _ t]) (use lock_exec_others [OF exec] in blast)
qed (auto simp: set_pc_def)

text \<open>
  C3: Refinement. Every step of the futex lock, from a reachable state, is a step of the
  abstract mutex on the set of owners: it leaves the owners alone, lets one thread take a
  free lock, or lets the sole owner release it.
\<close>

theorem lock_refines_mutex:
  assumes r: "lock_reach s" and st: "lock_step s s'"
  shows "mutex_step (owners s) (owners s')"
proof -
  have inv: "lock_inv s" by (rule lock_reach_inv [OF r])
  have inv': "lock_inv s'" by (rule lock_reach_inv [OF lock_reach.step [OF r st]])
  obtain t where same: "\<And>u. u \<noteq> t \<Longrightarrow> owns (pcs s' u) = owns (pcs s u)"
    using lock_step_one_mover [OF st] by blast
  show ?thesis
  proof (cases "owns (pcs s t)"; cases "owns (pcs s' t)")
    assume "owns (pcs s t)" "owns (pcs s' t)"
    then have "\<forall>x. owns (pcs s' x) = owns (pcs s x)" using same by metis
    then have "owners s' = owners s" by (simp add: owners_def)
    then show ?thesis by (simp add: mutex_step.stutter)
  next
    assume a: "owns (pcs s t)" "\<not> owns (pcs s' t)"
    then have "owners s = {t}" using inv_unique [OF inv] by (auto simp: owners_def)
    moreover have "owners s' = {}"
    proof -
      have "\<not> owns (pcs s' x)" for x
        using a same [of x] inv_unique [OF inv, of t x] by (cases "x = t") auto
      then show ?thesis by (simp add: owners_def)
    qed
    ultimately show ?thesis by (simp add: mutex_step.release)
  next
    assume a: "\<not> owns (pcs s t)" "owns (pcs s' t)"
    then have "owners s' = {t}" using inv_unique [OF inv'] by (auto simp: owners_def)
    moreover have "owners s = {}"
    proof -
      have "\<not> owns (pcs s x)" for x
        using a same [of x] inv_unique [OF inv', of t x] by (cases "x = t") auto
      then show ?thesis by (simp add: owners_def)
    qed
    ultimately show ?thesis by (simp add: mutex_step.acquire)
  next
    assume "\<not> owns (pcs s t)" "\<not> owns (pcs s' t)"
    then have "\<forall>x. owns (pcs s' x) = owns (pcs s x)" using same by metis
    then have "owners s' = owners s" by (simp add: owners_def)
    then show ?thesis by (simp add: mutex_step.stutter)
  qed
qed

theorem lock_refines_mutex_witness:
  "lock_reach (set_pc (0::nat) (Acq_First Blocking) lock_init) \<and>
   lock_step (set_pc (0::nat) (Acq_First Blocking) lock_init) held_state \<and>
   mutex_step {} {0::nat}"
proof -
  have r: "lock_reach (set_pc (0::nat) (Acq_First Blocking) lock_init)"
    by (rule lock_reach_call_lock [OF lock_reach.init]) (simp add: lock_init_def)
  have st: "lock_step (set_pc (0::nat) (Acq_First Blocking) lock_init) held_state"
    by (rule lock_step.exec [of 0]) (simp add: lock_exec_def set_pc_def lock_init_def held_state_def cas_new_def)
  have o1: "owners (set_pc (0::nat) (Acq_First Blocking) lock_init) = {}"
    by (simp add: owners_def set_pc_def lock_init_def)
  have o2: "owners held_state = {0}"
    by (auto simp: owners_def held_state_def)
  show ?thesis using lock_refines_mutex [OF r st] r st o1 o2 by simp
qed

lemma lock_reach_release_state: "lock_reach (set_pc 0 Rel_Sub held_state)"
  by (rule lock_reach.step [OF lock_reach_held_state]) (rule lock_step.call_unlock, simp add: held_state_def)

text \<open>
  C20: The lock word stays in range. In every reachable state the 32-bit lock word is 0, 1
  or 2, it is 0 exactly when no thread owns the lock, and a thread about to run the
  \<^verbatim>\<open>Atomics.sub\<close> of \<^verbatim>\<open>unlock\<close> finds it nonzero, so the decrement never wraps around.
\<close>

theorem lock_word_invariant:
  assumes "lock_reach s"
  shows "lword s \<in> {0, 1, 2} \<and> (lword s = 0 \<longleftrightarrow> (\<forall>t. \<not> owns (pcs s t))) \<and>
         (pcs s t = Rel_Sub \<longrightarrow> lword s \<noteq> 0 \<and> unat (lword s - 1) = unat (lword s) - 1)"
proof -
  have inv: "lock_inv s" by (rule lock_reach_inv [OF assms])
  have w: "lword s \<in> {0, 1, 2}" by (rule inv_word [OF inv])
  have z: "lword s = 0 \<longleftrightarrow> (\<forall>t. \<not> owns (pcs s t))"
    using inv_free [OF inv] inv_taken [OF inv] by blast
  have "pcs s t = Rel_Sub \<Longrightarrow> lword s \<noteq> 0 \<and> unat (lword s - 1) = unat (lword s) - 1"
  proof -
    assume "pcs s t = Rel_Sub"
    then have "lword s \<noteq> 0" using inv_free [OF inv, of t] by auto
    then show ?thesis using w by (rule_tac i32_three_cases [OF w]) simp_all
  qed
  then show ?thesis using w z by blast
qed

theorem lock_word_invariant_witness:
  "lword (set_pc 0 Rel_Sub held_state) = 1 \<and> unat (lword (set_pc (0::nat) Rel_Sub held_state) - 1) = 0"
  using lock_word_invariant [OF lock_reach_release_state, of 0]
  by (simp add: set_pc_def held_state_def)

end
