(* ===== verification/Cond.thy ===== *)
theory Cond
  imports Lock
begin

text \<open>
  The condition variable of lock.js (\<^verbatim>\<open>Cond.prototype.wait\<close>, \<^verbatim>\<open>notifyOne\<close>,
  \<^verbatim>\<open>asyncWait\<close> and the polyfill of \<^verbatim>\<open>Atomics.waitNonblocking\<close>) as the program uses it:
  the proxy's write lock and write condition are the worker's read lock and read condition
  (the views of Channel are mirrored), and both sides run the loop
  lock; repeat (work; notifyOne; wait) of \<^verbatim>\<open>WorkerProxy.push\<close> (lib.ts 181-207) and of the
  worker's push loop (lib.ts 339-373). The proxy waits with \<^verbatim>\<open>asyncWait\<close> (a fast check
  of the sequence word, then a helper thread's \<^verbatim>\<open>Atomics.wait\<close>), the worker with the
  blocking \<^verbatim>\<open>wait\<close>. The lock is an abstract owner: Lock proves (C3) that the futex
  lock refines exactly this mutex. The sequence word is the 32-bit slot, incremented with
  wrap-around. The ghost fields \<open>cs_rounds\<close> (loop bodies run per side) and \<open>cs_turn\<close>
  (whose body is next) carry the invariant; no step reads them.
\<close>

section \<open>Parties, program counters and the shared state\<close>

datatype party = Proxy | Worker

fun other :: "party \<Rightarrow> party" where
  "other Proxy = Worker"
| "other Worker = Proxy"

fun party_kind :: "party \<Rightarrow> wait_kind" where
  "party_kind Proxy = Suspending"
| "party_kind Worker = Blocking"

datatype cpc =
    C_Lock
  | C_Work
  | C_Add
  | C_Notify
  | C_Load
  | C_Unlock i32
  | C_Wait i32
  | C_Helper i32
  | C_Blocked i32
  | C_Relock

record cond_sys =
  cs_owner :: "party option"
  cs_seq :: i32
  cs_pc :: "party \<Rightarrow> cpc"
  cs_waitq :: "party list"
  cs_rounds :: "party \<Rightarrow> nat"
  cs_turn :: party

section \<open>The atomic steps\<close>

definition cond_init :: cond_sys where
  "cond_init = \<lparr>cs_owner = Some Proxy, cs_seq = 0, cs_pc = (\<lambda>_. C_Lock)(Proxy := C_Work),
                 cs_waitq = [], cs_rounds = (\<lambda>_. 0), cs_turn = Proxy\<rparr>"

definition cset_pc :: "party \<Rightarrow> cpc \<Rightarrow> cond_sys \<Rightarrow> cond_sys" where
  "cset_pc t p s = s\<lparr>cs_pc := (cs_pc s)(t := p)\<rparr>"

definition seq_wait :: "party \<Rightarrow> i32 \<Rightarrow> cond_sys \<Rightarrow> cond_sys" where
  "seq_wait t v s =
     (if cs_seq s = v then s\<lparr>cs_pc := (cs_pc s)(t := C_Blocked v), cs_waitq := cs_waitq s @ [t]\<rparr>
      else cset_pc t C_Relock s)"

definition seq_notify1 :: "cond_sys \<Rightarrow> cond_sys" where
  "seq_notify1 s =
     (case cs_waitq s of
        [] \<Rightarrow> s
      | u # us \<Rightarrow> s\<lparr>cs_pc := (cs_pc s)(u := C_Relock), cs_waitq := us\<rparr>)"

text \<open>\<^verbatim>\<open>Cond.prototype.notifyAll\<close> (lock.js 269-274): \<^verbatim>\<open>Atomics.add\<close> on the sequence
  word, then \<^verbatim>\<open>Atomics.notify(iab, seqIndex)\<close> without a count, which wakes every waiter.
  The program only calls \<^verbatim>\<open>notifyOne\<close>, so no step of \<open>cond_exec\<close> uses it.\<close>

definition seq_notify_all :: "cond_sys \<Rightarrow> cond_sys" where
  "seq_notify_all s =
     s\<lparr>cs_seq := cs_seq s + 1,
       cs_pc := (\<lambda>u. if u \<in> set (cs_waitq s) then C_Relock else cs_pc s u), cs_waitq := []\<rparr>"

text \<open>One atomic step of party \<open>t\<close>. \<open>C_Lock\<close> is the worker's \<^verbatim>\<open>readLock.lock()\<close> before its
  loop (the proxy starts inside the loop, holding the lock its \<^verbatim>\<open>asyncLock\<close> took);
  \<open>C_Work\<close> is the body up to the notification; \<open>C_Add\<close> and \<open>C_Notify\<close> are the
  \<^verbatim>\<open>Atomics.add\<close> and \<^verbatim>\<open>Atomics.notify(.., 1)\<close> of \<^verbatim>\<open>notifyOne\<close>; \<open>C_Load\<close> is the
  \<^verbatim>\<open>Atomics.load\<close> of \<^verbatim>\<open>wait\<close>/\<^verbatim>\<open>asyncWait\<close>, \<open>C_Unlock v\<close> its \<^verbatim>\<open>lock.unlock()\<close>;
  \<open>C_Wait v\<close> is \<^verbatim>\<open>Atomics.wait\<close> for the worker and the polyfill's fast check
  \<^verbatim>\<open>Atomics.load(ia, index) != value\<close> for the proxy, whose helper thread then waits
  (\<open>C_Helper v\<close>); \<open>C_Blocked v\<close> is parked; \<open>C_Relock\<close> is the \<^verbatim>\<open>lock.lock()\<close> or
  \<^verbatim>\<open>asyncLock()\<close> after the wait, which returns to the loop body.\<close>

definition cond_exec :: "party \<Rightarrow> cond_sys \<Rightarrow> cond_sys option" where
  "cond_exec t s =
     (case cs_pc s t of
        C_Lock \<Rightarrow> (if cs_owner s = None then Some (cset_pc t C_Work (s\<lparr>cs_owner := Some t\<rparr>)) else None)
      | C_Work \<Rightarrow> Some (cset_pc t C_Add (s\<lparr>cs_rounds := (cs_rounds s)(t := Suc (cs_rounds s t)), cs_turn := other t\<rparr>))
      | C_Add \<Rightarrow> Some (cset_pc t C_Notify (s\<lparr>cs_seq := cs_seq s + 1\<rparr>))
      | C_Notify \<Rightarrow> Some (cset_pc t C_Load (seq_notify1 s))
      | C_Load \<Rightarrow> Some (cset_pc t (C_Unlock (cs_seq s)) s)
      | C_Unlock v \<Rightarrow> Some (cset_pc t (C_Wait v) (s\<lparr>cs_owner := None\<rparr>))
      | C_Wait v \<Rightarrow>
          (case party_kind t of
             Blocking \<Rightarrow> Some (seq_wait t v s)
           | Suspending \<Rightarrow> Some (cset_pc t (if cs_seq s \<noteq> v then C_Relock else C_Helper v) s))
      | C_Helper v \<Rightarrow> Some (seq_wait t v s)
      | C_Blocked v \<Rightarrow> None
      | C_Relock \<Rightarrow> (if cs_owner s = None then Some (cset_pc t C_Work (s\<lparr>cs_owner := Some t\<rparr>)) else None))"

text \<open>Schedules: a list of parties, each running one atomic step.\<close>

inductive cond_reach :: "cond_sys \<Rightarrow> bool" where
  init: "cond_reach cond_init"
| step: "cond_reach s \<Longrightarrow> cond_exec t s = Some s' \<Longrightarrow> cond_reach s'"

fun cond_run :: "party list \<Rightarrow> cond_sys \<Rightarrow> cond_sys option" where
  "cond_run [] s = Some s"
| "cond_run (t # ts) s = (case cond_exec t s of None \<Rightarrow> None | Some s' \<Rightarrow> cond_run ts s')"

definition sched_blocked :: "party list" where
  "sched_blocked = [Proxy, Proxy, Proxy, Proxy, Proxy,
                   Worker, Worker, Worker, Worker, Worker, Worker, Worker, Proxy]"

definition sched_notify :: "party list" where
  "sched_notify = sched_blocked @ [Proxy, Proxy]"

section \<open>The invariant\<close>

fun holds :: "cpc \<Rightarrow> bool" where
  "holds C_Work = True"
| "holds C_Add = True"
| "holds C_Notify = True"
| "holds C_Load = True"
| "holds (C_Unlock v) = True"
| "holds _ = False"

fun cparked :: "cpc \<Rightarrow> bool" where
  "cparked (C_Blocked v) = True"
| "cparked _ = False"

fun waiting_val :: "cpc \<Rightarrow> i32 option" where
  "waiting_val (C_Unlock v) = Some v"
| "waiting_val (C_Wait v) = Some v"
| "waiting_val (C_Helper v) = Some v"
| "waiting_val (C_Blocked v) = Some v"
| "waiting_val _ = None"

definition cond_inv :: "cond_sys \<Rightarrow> bool" where
  "cond_inv s \<longleftrightarrow>
     (\<forall>t. holds (cs_pc s t) \<longleftrightarrow> cs_owner s = Some t) \<and>
     (\<forall>t. cs_pc s t = C_Work \<or> cs_pc s t = C_Relock \<longrightarrow> cs_turn s = t) \<and>
     (\<forall>t. cs_pc s t = C_Add \<or> cs_pc s t = C_Notify \<or> cs_pc s t = C_Load \<longrightarrow> cs_turn s = other t) \<and>
     (\<forall>t v. waiting_val (cs_pc s t) = Some v \<longrightarrow>
        (cs_turn s = other t \<and> cs_seq s = v) \<or>
        (cs_turn s = t \<and> cs_pc s (other t) = C_Add \<and> cs_seq s = v) \<or>
        (cs_turn s = t \<and> cs_pc s (other t) \<noteq> C_Add \<and> cs_seq s = v + 1)) \<and>
     (\<forall>t. cparked (cs_pc s t) \<and> cs_turn s = t \<longrightarrow> cs_pc s (other t) = C_Add \<or> cs_pc s (other t) = C_Notify) \<and>
     cs_waitq s = filter (\<lambda>u. cparked (cs_pc s u)) [Proxy, Worker] \<and>
     (\<forall>t. cs_pc s t = C_Lock \<longrightarrow> t = Worker \<and> cs_rounds s Worker = 0 \<and>
                                  (cs_turn s = Worker \<or> cs_pc s Proxy = C_Work)) \<and>
     cs_rounds s Proxy = cs_rounds s Worker + (if cs_turn s = Worker then 1 else 0)"

section \<open>Preservation of the invariant\<close>

lemma other_other [simp]: "other (other t) = t"
  by (cases t) simp_all

lemma other_neq [simp]: "other t \<noteq> t" "t \<noteq> other t"
  by (cases t; simp)+

lemma party_neq [simp]: "t \<noteq> Proxy \<longleftrightarrow> t = Worker" "t \<noteq> Worker \<longleftrightarrow> t = Proxy"
  by (cases t; simp)+

lemma all_party: "(\<forall>t. P t) \<longleftrightarrow> P Proxy \<and> P Worker"
  by (metis (full_types) party.exhaust)

lemma i32_succ_neq [simp]: "(v::i32) + 1 \<noteq> v" "v \<noteq> v + 1"
  by simp_all

lemma cond_inv_init: "cond_inv cond_init"
  by (simp add: cond_inv_def cond_init_def all_party)

lemma inv_work:
  "cond_inv s \<Longrightarrow> cs_pc s t = C_Work \<Longrightarrow>
   cond_inv (cset_pc t C_Add (s\<lparr>cs_rounds := (cs_rounds s)(t := Suc (cs_rounds s t)), cs_turn := other t\<rparr>))"
  by (cases t; cases "cs_pc s (other t)") (auto simp: cond_inv_def cset_pc_def all_party)

lemma inv_lock:
  "cond_inv s \<Longrightarrow> cs_pc s t = C_Lock \<Longrightarrow> cs_owner s = None \<Longrightarrow>
   cond_inv (cset_pc t C_Work (s\<lparr>cs_owner := Some t\<rparr>))"
  by (cases t; cases "cs_pc s (other t)") (auto simp: cond_inv_def cset_pc_def all_party)

lemma inv_relock:
  "cond_inv s \<Longrightarrow> cs_pc s t = C_Relock \<Longrightarrow> cs_owner s = None \<Longrightarrow>
   cond_inv (cset_pc t C_Work (s\<lparr>cs_owner := Some t\<rparr>))"
  by (cases t; cases "cs_pc s (other t)") (auto simp: cond_inv_def cset_pc_def all_party)

lemma inv_add:
  "cond_inv s \<Longrightarrow> cs_pc s t = C_Add \<Longrightarrow> cond_inv (cset_pc t C_Notify (s\<lparr>cs_seq := cs_seq s + 1\<rparr>))"
  by (cases t; cases "cs_pc s (other t)") (auto simp: cond_inv_def cset_pc_def all_party)

lemma inv_notify:
  "cond_inv s \<Longrightarrow> cs_pc s t = C_Notify \<Longrightarrow> cond_inv (cset_pc t C_Load (seq_notify1 s))"
  by (cases t; cases "cs_pc s (other t)") (auto simp: cond_inv_def cset_pc_def seq_notify1_def all_party)

lemma inv_load:
  "cond_inv s \<Longrightarrow> cs_pc s t = C_Load \<Longrightarrow> cond_inv (cset_pc t (C_Unlock (cs_seq s)) s)"
  by (cases t; cases "cs_pc s (other t)") (auto simp: cond_inv_def cset_pc_def all_party)

lemma inv_unlock:
  "cond_inv s \<Longrightarrow> cs_pc s t = C_Unlock v \<Longrightarrow> cond_inv (cset_pc t (C_Wait v) (s\<lparr>cs_owner := None\<rparr>))"
  by (cases t; cases "cs_pc s (other t)") (auto simp: cond_inv_def cset_pc_def all_party)

lemma inv_fast_check:
  "cond_inv s \<Longrightarrow> cs_pc s t = C_Wait v \<Longrightarrow>
   cond_inv (cset_pc t (if cs_seq s \<noteq> v then C_Relock else C_Helper v) s)"
  by (cases t; cases "cs_pc s (other t)") (auto simp: cond_inv_def cset_pc_def all_party)

lemma inv_wait:
  "cond_inv s \<Longrightarrow> cs_pc s t = C_Wait v \<Longrightarrow> cond_inv (seq_wait t v s)"
  by (cases t; cases "cs_pc s (other t)") (auto simp: cond_inv_def cset_pc_def seq_wait_def all_party)

lemma inv_helper:
  "cond_inv s \<Longrightarrow> cs_pc s t = C_Helper v \<Longrightarrow> cond_inv (seq_wait t v s)"
  by (cases t; cases "cs_pc s (other t)") (auto simp: cond_inv_def cset_pc_def seq_wait_def all_party)

lemmas cond_eval = cond_init_def cond_exec_def cset_pc_def seq_wait_def seq_notify1_def

lemma cset_pc_eq_iff: "cset_pc t p s = cset_pc t q s \<longleftrightarrow> p = q"
  by (auto simp: cset_pc_def dest: arg_cong [where f = "\<lambda>s. cs_pc s t"])

lemma cond_exec_inv:
  assumes "cond_inv s" "cond_exec t s = Some s'"
  shows "cond_inv s'"
proof (cases "cs_pc s t")
  case (C_Wait v)
  then show ?thesis
    using assms inv_wait [OF assms(1) C_Wait] inv_fast_check [OF assms(1) C_Wait]
    by (cases "party_kind t") (simp_all add: cond_exec_def)
qed (use assms in \<open>auto simp: cond_exec_def split: if_split_asm
       intro: inv_lock inv_relock inv_work inv_add inv_notify inv_load inv_unlock inv_helper\<close>)

lemma cond_reach_inv: "cond_reach s \<Longrightarrow> cond_inv s"
  by (induction rule: cond_reach.induct) (auto intro: cond_inv_init cond_exec_inv)

section \<open>Properties of the handshake\<close>

lemma cond_run_reach: "cond_reach s \<Longrightarrow> cond_run ts s = Some s' \<Longrightarrow> cond_reach s'"
  by (induction ts arbitrary: s) (auto split: option.split_asm intro: cond_reach.step)

lemma cond_run_init_reach: "cond_run ts cond_init = Some s \<Longrightarrow> cond_reach s"
  by (rule cond_run_reach [OF cond_reach.init])

lemma cond_inv_parts:
  assumes "cond_inv s"
  shows "cs_owner s = Some t \<Longrightarrow> holds (cs_pc s t)"
    and "cparked (cs_pc s t) \<Longrightarrow> cs_turn s = t \<Longrightarrow> cs_pc s (other t) = C_Add \<or> cs_pc s (other t) = C_Notify"
    and "waiting_val (cs_pc s t) = Some v \<Longrightarrow> cs_seq s = v \<or> cs_seq s = v + 1"
    and "cs_rounds s Proxy = cs_rounds s Worker + (if cs_turn s = Worker then 1 else 0)"
  using assms unfolding cond_inv_def by blast+

lemma holds_exec: "holds (cs_pc s t) \<Longrightarrow> cond_exec t s \<noteq> None"
  by (cases "cs_pc s t"; cases "party_kind t") (simp_all add: cond_exec_def)

lemma unowned_exec: "cs_owner s = None \<Longrightarrow> \<not> cparked (cs_pc s t) \<Longrightarrow> cond_exec t s \<noteq> None"
  by (cases "cs_pc s t"; cases "party_kind t") (simp_all add: cond_exec_def)

text \<open>C21: The handshake never deadlocks: in every reachable state of the two loops some
  party can take a step. In particular the two sides are never both parked on the sequence
  word, because a side parks only while its partner still has the increment and the
  \<^verbatim>\<open>notifyOne\<close> before it.\<close>
theorem cond_no_deadlock:
  assumes "cond_reach s"
  shows "\<exists>t s'. cond_exec t s = Some s'"
proof -
  have inv: "cond_inv s" using assms by (rule cond_reach_inv)
  have "\<exists>t. cond_exec t s \<noteq> None"
  proof (cases "cs_owner s")
    case None
    have "\<not> cparked (cs_pc s (cs_turn s)) \<or> \<not> cparked (cs_pc s (other (cs_turn s)))"
      using cond_inv_parts(2) [OF inv, of "cs_turn s"] by auto
    then show ?thesis using unowned_exec [OF None] by blast
  next
    case (Some t)
    then show ?thesis using holds_exec cond_inv_parts(1) [OF inv] by blast
  qed
  then show ?thesis by blast
qed

text \<open>C22: The loop bodies strictly alternate: the proxy has run its body (written a
  chunk) either as many times as the worker or exactly once more, never two chunks ahead.\<close>
theorem cond_alternation:
  assumes "cond_reach s"
  shows "cs_rounds s Worker \<le> cs_rounds s Proxy \<and> cs_rounds s Proxy \<le> Suc (cs_rounds s Worker)"
  using cond_inv_parts(4) [OF cond_reach_inv [OF assms]] by auto

text \<open>C23: The value a waiter read from the 32-bit sequence word is the current value or
  one behind it, so the wrap-around of the counter at 2^32 can never make a stale value look
  current.\<close>
theorem cond_seq_window:
  assumes "cond_reach s" "waiting_val (cs_pc s t) = Some v"
  shows "cs_seq s = v \<or> cs_seq s = v + 1"
  using cond_inv_parts(3) [OF cond_reach_inv [OF assms(1)] assms(2)] .

text \<open>C24: No lost wake-up: a side parked in \<^verbatim>\<open>Atomics.wait\<close> whose turn it is has its
  partner at the increment or the \<^verbatim>\<open>notifyOne\<close> of the sequence word, which wakes it.\<close>
theorem cond_parked_notified:
  assumes "cond_reach s" "cs_pc s t = C_Blocked v" "cs_turn s = t"
  shows "cs_pc s (other t) = C_Add \<or> cs_pc s (other t) = C_Notify"
  using cond_inv_parts(2) [OF cond_reach_inv [OF assms(1)]] assms(2,3) by simp

lemma cond_waitq_short:
  assumes "cond_inv s"
  shows "cs_waitq s = [] \<or> (\<exists>u. cs_waitq s = [u])"
proof -
  have q: "cs_waitq s = filter (\<lambda>u. cparked (cs_pc s u)) [Proxy, Worker]"
    using assms by (simp add: cond_inv_def)
  have "\<not> (cparked (cs_pc s Proxy) \<and> cparked (cs_pc s Worker))"
    using cond_inv_parts(2) [OF assms, of "cs_turn s"] by (cases "cs_turn s") auto
  then show ?thesis unfolding q by auto
qed

section \<open>Witnesses\<close>

text \<open>\<open>sched_blocked\<close>: the proxy writes and waits, the worker consumes, notifies and parks,
  and the proxy's fast check then sees the new sequence value; \<open>sched_notify\<close>: the proxy
  then re-locks and writes the next chunk while the worker is still parked.\<close>

lemma sched_blocked_run:
  "cond_run sched_blocked cond_init = Some (the (cond_run sched_blocked cond_init))"
  by (simp add: sched_blocked_def cond_eval)

lemma sched_notify_run:
  "cond_run sched_notify cond_init = Some (the (cond_run sched_notify cond_init))"
  by (simp add: sched_notify_def sched_blocked_def cond_eval)

theorem cond_no_deadlock_witness:
  "cs_pc (the (cond_run sched_blocked cond_init)) Worker = C_Blocked 2 \<and>
   (\<exists>t s'. cond_exec t (the (cond_run sched_blocked cond_init)) = Some s')"
proof
  show "cs_pc (the (cond_run sched_blocked cond_init)) Worker = C_Blocked 2"
    by (simp add: sched_blocked_def cond_eval)
  show "\<exists>t s'. cond_exec t (the (cond_run sched_blocked cond_init)) = Some s'"
    by (rule cond_no_deadlock [OF cond_run_init_reach [OF sched_blocked_run]])
qed

theorem cond_alternation_witness:
  "cs_rounds (the (cond_run sched_notify cond_init)) Worker = 1 \<and>
   cs_rounds (the (cond_run sched_notify cond_init)) Proxy = 2"
  using cond_alternation [OF cond_run_init_reach [OF sched_notify_run]]
  by (simp add: sched_notify_def sched_blocked_def cond_eval)

theorem cond_seq_window_witness:
  "waiting_val (cs_pc (the (cond_run sched_blocked cond_init)) Worker) = Some 2 \<and>
   cs_seq (the (cond_run sched_blocked cond_init)) = 2"
  using cond_seq_window [OF cond_run_init_reach [OF sched_blocked_run], of Worker 2]
  by (simp add: sched_blocked_def cond_eval)

theorem cond_parked_notified_witness:
  "cs_pc (the (cond_run sched_notify cond_init)) Proxy = C_Add"
  using cond_parked_notified [OF cond_run_init_reach [OF sched_notify_run], of Worker 2]
  by (simp add: sched_notify_def sched_blocked_def cond_eval)

end
