(* ===== verification/WaitAsync.thy ===== *)
theory WaitAsync
  imports Prelude "HOL-Library.Extended_Nat"
begin

text \<open>
  The polyfill of \<^verbatim>\<open>Atomics.waitNonblocking\<close> (lock.js 350-451) that \<^verbatim>\<open>asyncLock\<close> and
  \<^verbatim>\<open>asyncWait\<close> await on the main thread. It keeps a pool of helper workers
  (\<^verbatim>\<open>helpers\<close>, \<^verbatim>\<open>allocHelper\<close>, \<^verbatim>\<open>freeHelper\<close>); a call validates its arguments, converts
  them with \<^verbatim>\<open>| 0\<close>, answers \<^verbatim>\<open>"not-equal"\<close> at once when the slot already differs, and
  otherwise hands the wait to a helper, whose reply settles the promise and returns the
  helper to the pool. Helpers are numbered in the order \<^verbatim>\<open>new Worker\<close> creates them; a
  promise is numbered by the call that created it.
\<close>

section \<open>Arguments, the slot read, and the helper's wait\<close>

text \<open>\<^verbatim>\<open>x | 0\<close> on an integral number: ToInt32, i.e. reduction modulo \<open>2^32\<close> into the
  signed range.\<close>

definition to_int32 :: "int \<Rightarrow> int" where
  "to_int32 x = sint (word_of_int x :: i32)"

text \<open>The first argument as the three tests of the polyfill see it, and its cells.\<close>

record shared_ia =
  ia_object :: bool
  ia_int32 :: bool
  ia_shared :: bool
  ia_cells :: "i32 list"

definition ia_valid :: "shared_ia \<Rightarrow> bool" where
  "ia_valid ia \<longleftrightarrow> ia_object ia \<and> ia_int32 ia \<and> ia_shared ia"

text \<open>\<^verbatim>\<open>Atomics.load(ia, index)\<close> throws \<open>RangeError\<close> for an index outside the array.\<close>

definition atomics_load :: "shared_ia \<Rightarrow> int \<Rightarrow> js_error + i32" where
  "atomics_load ia i =
     (if 0 \<le> i \<and> nat i < length (ia_cells ia) then Inr (ia_cells ia ! nat i) else Inl RangeError)"

datatype wait_result = Ok | Not_equal | Timed_out

text \<open>The two messages a helper can receive and the two replies it posts.\<close>

datatype helper_msg = Wait_msg shared_ia int int enat | Bogus_msg

datatype helper_reply = Reply_ok wait_result | Reply_error string

text \<open>\<^verbatim>\<open>Atomics.wait(ia, index, value, timeout)\<close> in the helper. It blocks while the slot
  holds \<open>value\<close>; whether a notification comes before the timeout is the input
  \<open>woken\<close>. \<open>None\<close>: the helper never returns (no notification, infinite timeout).\<close>

definition atomics_wait :: "shared_ia \<Rightarrow> int \<Rightarrow> int \<Rightarrow> enat \<Rightarrow> bool \<Rightarrow> js_error + wait_result option" where
  "atomics_wait ia i v t woken =
     (if \<not> ia_valid ia then Inl TypeError
      else case atomics_load ia i of
        Inl e \<Rightarrow> Inl e
      | Inr x \<Rightarrow>
          if sint x \<noteq> to_int32 v then Inr (Some Not_equal)
          else if woken then Inr (Some Ok)
          else if t = \<infinity> then Inr None
          else Inr (Some Timed_out))"

text \<open>The helper's \<^verbatim>\<open>onmessage\<close> (the \<^verbatim>\<open>helperCode\<close> string): a \<^verbatim>\<open>'wait'\<close> message runs
  the wait and posts \<^verbatim>\<open>['ok', result]\<close>; any exception, and the default branch of the switch,
  end in the catch, which posts \<^verbatim>\<open>['error', 'Exception']\<close>.\<close>

definition helper_onmessage :: "helper_msg \<Rightarrow> bool \<Rightarrow> helper_reply option" where
  "helper_onmessage m woken =
     (case m of
        Wait_msg ia i v t \<Rightarrow>
          (case atomics_wait ia i v t woken of
             Inl _ \<Rightarrow> Some (Reply_error ''Exception'')
           | Inr None \<Rightarrow> None
           | Inr (Some r) \<Rightarrow> Some (Reply_ok r))
      | Bogus_msg \<Rightarrow> Some (Reply_error ''Exception''))"

section \<open>The helper pool and the polyfill\<close>

type_synonym helper = nat

text \<open>\<open>wn_pool\<close> is the array \<^verbatim>\<open>helpers\<close>; \<open>wn_created\<close> counts \<^verbatim>\<open>new Worker\<close> calls (the
  helpers are \<open>0 ..< wn_created\<close>); \<open>wn_pending\<close> lists the helpers whose \<^verbatim>\<open>onmessage\<close>
  closure still has to settle its promise, with that promise; \<open>wn_calls\<close> numbers the
  promises.\<close>

record wn_state =
  wn_pool :: "helper list"
  wn_created :: nat
  wn_pending :: "(helper \<times> nat) list"
  wn_calls :: nat

definition wn_init :: wn_state where
  "wn_init = \<lparr>wn_pool = [], wn_created = 0, wn_pending = [], wn_calls = 0\<rparr>"

text \<open>\<^verbatim>\<open>helpers.pop()\<close> takes the last element.\<close>

definition allocHelper :: "wn_state \<Rightarrow> helper \<times> wn_state" where
  "allocHelper s =
     (if wn_pool s \<noteq> [] then (last (wn_pool s), s\<lparr>wn_pool := butlast (wn_pool s)\<rparr>)
      else (wn_created s, s\<lparr>wn_created := Suc (wn_created s)\<rparr>))"

definition freeHelper :: "helper \<Rightarrow> wn_state \<Rightarrow> wn_state" where
  "freeHelper h s = s\<lparr>wn_pool := wn_pool s @ [h]\<rparr>"

datatype wn_outcome = WN_resolved wait_result | WN_pending nat

text \<open>\<^verbatim>\<open>Atomics.waitNonblocking(ia, index_, value_, timeout_)\<close>: the outcome, the messages
  posted to helpers, and the new state. An absent timeout is \<open>None\<close>. The statement
  \<^verbatim>\<open>ia[index]\<close> has no effect (an out-of-range read of a typed array is \<^verbatim>\<open>undefined\<close>);
  the range check is the one of \<^verbatim>\<open>Atomics.load\<close>. The comparison is of numbers, the
  loaded slot read as signed.\<close>

definition waitNonblocking ::
  "shared_ia \<Rightarrow> int \<Rightarrow> int \<Rightarrow> nat option \<Rightarrow> wn_state \<Rightarrow>
   js_error + wn_outcome \<times> (helper \<times> helper_msg) list \<times> wn_state" where
  "waitNonblocking ia index0 value0 timeout0 s =
     (if \<not> ia_valid ia then Inl TypeError
      else
        let index = to_int32 index0;
            value = to_int32 value0;
            timeout = (case timeout0 of None \<Rightarrow> \<infinity> | Some t \<Rightarrow> enat t)
        in case atomics_load ia index of
             Inl e \<Rightarrow> Inl e
           | Inr x \<Rightarrow>
               if sint x \<noteq> value then Inr (WN_resolved Not_equal, [], s)
               else
                 let (h, s1) = allocHelper s;
                     p = wn_calls s1
                 in Inr (WN_pending p, [(h, Wait_msg ia index value timeout)],
                         s1\<lparr>wn_pending := wn_pending s1 @ [(h, p)], wn_calls := Suc p\<rparr>))"

datatype settlement = Resolve wait_result | Reject string

text \<open>The \<^verbatim>\<open>h.onmessage\<close> closure on the main thread: it frees the helper first, then
  resolves or rejects the promise of the call that installed it. A reply from a helper with
  no pending closure changes nothing.\<close>

definition wn_onreply :: "helper \<Rightarrow> helper_reply \<Rightarrow> wn_state \<Rightarrow> (nat \<times> settlement) option \<times> wn_state" where
  "wn_onreply h r s =
     (case map_of (wn_pending s) h of
        None \<Rightarrow> (None, s)
      | Some p \<Rightarrow>
          let s1 = freeHelper h (s\<lparr>wn_pending := filter (\<lambda>q. fst q \<noteq> h) (wn_pending s)\<rparr>)
          in (Some (p, case r of Reply_ok res \<Rightarrow> Resolve res | Reply_error e \<Rightarrow> Reject e), s1))"

text \<open>Every state the main thread can reach: calls and replies in any order.\<close>

inductive wn_reach :: "wn_state \<Rightarrow> bool" where
  init: "wn_reach wn_init"
| call: "wn_reach s \<Longrightarrow> waitNonblocking ia i v t s = Inr (out, msgs, s') \<Longrightarrow> wn_reach s'"
| reply: "wn_reach s \<Longrightarrow> wn_onreply h r s = (res, s') \<Longrightarrow> wn_reach s'"

section \<open>The pool invariant\<close>

text \<open>Every helper ever created is either idle in the pool or waiting for exactly one
  promise, never both and never twice; promises are distinct and already numbered.\<close>

definition wn_inv :: "wn_state \<Rightarrow> bool" where
  "wn_inv s \<longleftrightarrow>
     distinct (wn_pool s @ map fst (wn_pending s)) \<and>
     set (wn_pool s @ map fst (wn_pending s)) = {..<wn_created s} \<and>
     distinct (map snd (wn_pending s)) \<and>
     (\<forall>p \<in> set (map snd (wn_pending s)). p < wn_calls s)"

text \<open>A one-slot shared \<^verbatim>\<open>Int32Array\<close> holding 0, as the sequence word of a fresh
  condition (Channel); used by the witnesses.\<close>

definition demo_ia :: shared_ia where
  "demo_ia = \<lparr>ia_object = True, ia_int32 = True, ia_shared = True, ia_cells = [0]\<rparr>"

section \<open>Pool lemmas\<close>

lemma to_int32_range: "- (2 ^ 31) \<le> to_int32 x \<and> to_int32 x < 2 ^ 31"
  unfolding to_int32_def using sint_ge [where 'a = 32] sint_lt [where 'a = 32] by simp

lemma to_int32_id: "- (2 ^ 31) \<le> x \<Longrightarrow> x < 2 ^ 31 \<Longrightarrow> to_int32 x = x"
  unfolding to_int32_def by (simp add: sint_sbintrunc' signed_take_bit_int_eq_self)

lemma to_int32_sint [simp]: "to_int32 (sint (w :: i32)) = sint w"
  unfolding to_int32_def by simp

lemma sint_i32_eq_iff: "sint (x :: i32) = sint v \<longleftrightarrow> x = v"
  by (auto intro: signed_word_eqI)

lemma wn_inv_init: "wn_inv wn_init"
  by (simp add: wn_inv_def wn_init_def)

lemma distinct_butlast_last:
  "xs \<noteq> [] \<Longrightarrow> distinct (butlast xs @ ys @ [last xs]) = distinct (xs @ ys)"
  by (cases xs rule: rev_cases) auto

lemma set_butlast_last:
  "xs \<noteq> [] \<Longrightarrow> set (butlast xs @ ys @ [last xs]) = set (xs @ ys)"
  by (cases xs rule: rev_cases) auto

lemma allocHelper_inv:
  assumes "wn_inv s" "allocHelper s = (h, s1)"
  shows "distinct (wn_pool s1 @ map fst (wn_pending s1) @ [h])"
    and "set (wn_pool s1 @ map fst (wn_pending s1) @ [h]) = {..<wn_created s1}"
    and "wn_pending s1 = wn_pending s" "wn_calls s1 = wn_calls s"
proof -
  show "wn_pending s1 = wn_pending s" "wn_calls s1 = wn_calls s"
    using assms(2) by (auto simp: allocHelper_def split: if_split_asm)
next
  have "distinct (wn_pool s1 @ map fst (wn_pending s1) @ [h]) \<and>
        set (wn_pool s1 @ map fst (wn_pending s1) @ [h]) = {..<wn_created s1}"
  proof (cases "wn_pool s = []")
    case True
    then have e: "fst ` set (wn_pending s) = {..<wn_created s}" and d: "distinct (map fst (wn_pending s))"
      using assms(1) by (simp_all add: wn_inv_def)
    have "h = wn_created s" "s1 = s\<lparr>wn_created := Suc (wn_created s)\<rparr>"
      using assms(2) True by (auto simp: allocHelper_def)
    then show ?thesis using True e d by (simp add: lessThan_Suc)
  next
    case False
    have "h = last (wn_pool s)" "s1 = s\<lparr>wn_pool := butlast (wn_pool s)\<rparr>"
      using assms(2) False by (auto simp: allocHelper_def)
    then have l: "wn_pool s1 @ map fst (wn_pending s1) @ [h] =
                  butlast (wn_pool s) @ map fst (wn_pending s) @ [last (wn_pool s)]"
      "wn_created s1 = wn_created s" by simp_all
    show ?thesis
      unfolding l distinct_butlast_last [OF False] set_butlast_last [OF False]
      using assms(1) by (simp add: wn_inv_def)
  qed
  then show "distinct (wn_pool s1 @ map fst (wn_pending s1) @ [h])"
    "set (wn_pool s1 @ map fst (wn_pending s1) @ [h]) = {..<wn_created s1}" by simp_all
qed

lemma allocHelper_frame:
  "allocHelper s = (h, s1) \<Longrightarrow> wn_pending s1 = wn_pending s \<and> wn_calls s1 = wn_calls s"
  by (auto simp: allocHelper_def split: if_split_asm)

lemma waitNonblocking_cases:
  assumes "waitNonblocking ia i v t s = Inr (out, msgs, s')"
  obtains (fast) "out = WN_resolved Not_equal" "msgs = []" "s' = s"
  | (wait) h s1 where "allocHelper s = (h, s1)" "out = WN_pending (wn_calls s)"
      "msgs = [(h, Wait_msg ia (to_int32 i) (to_int32 v) (case t of None \<Rightarrow> \<infinity> | Some n \<Rightarrow> enat n))]"
      "s' = s1\<lparr>wn_pending := wn_pending s1 @ [(h, wn_calls s)], wn_calls := Suc (wn_calls s)\<rparr>"
proof -
  obtain h s1 where a: "allocHelper s = (h, s1)" by (cases "allocHelper s")
  obtain x where valid: "ia_valid ia" and x: "atomics_load ia (to_int32 i) = Inr x"
    using assms by (cases "atomics_load ia (to_int32 i)") (simp_all add: waitNonblocking_def split: if_split_asm)
  show ?thesis
  proof (cases "sint x = to_int32 v")
    case False
    then show ?thesis using assms valid x fast by (simp add: waitNonblocking_def)
  next
    case True
    then show ?thesis
      using assms valid x a allocHelper_frame [OF a]
      by (intro wait [OF a]) (simp_all add: waitNonblocking_def Let_def)
  qed
qed

lemma wn_inv_call:
  assumes "wn_inv s" "waitNonblocking ia i v t s = Inr (out, msgs, s')"
  shows "wn_inv s'"
  using assms(2)
proof (cases rule: waitNonblocking_cases)
  case fast
  then show ?thesis using assms(1) by simp
next
  case (wait h s1)
  note a = allocHelper_inv [OF assms(1) wait(1)]
  show ?thesis
    using assms(1) a wait(4) by (auto simp: wn_inv_def)
qed

lemma map_fst_filter_fst:
  "map fst (filter (\<lambda>q. fst q \<noteq> h) ps) = filter (\<lambda>x. x \<noteq> h) (map fst ps)"
  by (induction ps) auto

lemma wn_inv_reply:
  assumes "wn_inv s" "wn_onreply h r s = (res, s')"
  shows "wn_inv s'"
proof (cases "map_of (wn_pending s) h")
  case None
  then show ?thesis using assms by (simp add: wn_onreply_def)
next
  case (Some p)
  have h: "h \<in> set (map fst (wn_pending s))"
    using Some by (metis map_of_eq_None_iff option.distinct(1) set_map)
  have s': "s' = s\<lparr>wn_pending := filter (\<lambda>q. fst q \<noteq> h) (wn_pending s),
                    wn_pool := wn_pool s @ [h]\<rparr>"
    using assms(2) Some by (simp add: wn_onreply_def freeHelper_def Let_def)
  show ?thesis
    using assms(1) h unfolding s' wn_inv_def
    by (auto simp: map_fst_filter_fst distinct_map_filter)
qed

lemma wn_reach_inv: "wn_reach s \<Longrightarrow> wn_inv s"
  by (induction rule: wn_reach.induct) (auto intro: wn_inv_init wn_inv_call wn_inv_reply)

lemma wn_inv_count: "wn_inv s \<Longrightarrow> wn_created s = length (wn_pool s) + length (wn_pending s)"
  unfolding wn_inv_def by (metis card_lessThan distinct_card length_append length_map)

lemma to_int32_wrap: "to_int32 (x + 2 ^ 32) = to_int32 x"
proof -
  have h: "word_of_int (x + 2 ^ 32) = (word_of_int x :: i32)"
    by (simp only: of_int_add) simp
  show ?thesis by (simp only: to_int32_def h)
qed

lemma atomics_load_in_range:
  "0 \<le> i \<Longrightarrow> nat i < length (ia_cells ia) \<Longrightarrow> atomics_load ia i = Inr (ia_cells ia ! nat i)"
  by (simp add: atomics_load_def)

section \<open>Properties of the polyfill\<close>

text \<open>C25: No helper worker leaks and none is shared: in every state the main thread
  reaches, each helper the polyfill created is either idle in \<^verbatim>\<open>helpers\<close> or serving
  exactly one pending promise, so the number of \<^verbatim>\<open>new Worker\<close> calls equals the idle plus
  the busy helpers.\<close>

theorem wn_helpers_accounted:
  assumes "wn_reach s"
  shows "wn_inv s \<and> wn_created s = length (wn_pool s) + length (wn_pending s)"
  using wn_reach_inv [OF assms] wn_inv_count by blast

text \<open>C26: A wait that is notified completes: when the slot holds the awaited value the
  call returns a pending promise and posts one \<^verbatim>\<open>'wait'\<close> message; the helper, once
  notified, replies \<^verbatim>\<open>['ok', 'ok']\<close>; the reply resolves exactly that promise with
  \<^verbatim>\<open>"ok"\<close> and returns the helper to the pool. A new helper is created only when the pool
  was empty.\<close>

theorem waitNonblocking_roundtrip:
  assumes inv: "wn_inv s" and valid: "ia_valid ia"
    and idx: "0 \<le> i" "i < 2 ^ 31" "nat i < length (ia_cells ia)"
    and cell: "ia_cells ia ! nat i = v"
  shows "\<exists>h m s1 s2.
           waitNonblocking ia i (sint v) t s = Inr (WN_pending (wn_calls s), [(h, m)], s1) \<and>
           helper_onmessage m True = Some (Reply_ok Ok) \<and>
           wn_onreply h (Reply_ok Ok) s1 = (Some (wn_calls s, Resolve Ok), s2) \<and>
           wn_inv s2 \<and> wn_pending s2 = wn_pending s \<and>
           wn_created s2 = wn_created s + (if wn_pool s = [] then 1 else 0)"
proof -
  obtain h s0 where a: "allocHelper s = (h, s0)" by (cases "allocHelper s")
  have ti: "to_int32 i = i" using idx by (simp add: to_int32_id)
  have ld: "atomics_load ia i = Inr v" using idx cell by (simp add: atomics_load_in_range)
  define T where "T = (case t of None \<Rightarrow> \<infinity> | Some n \<Rightarrow> enat n)"
  define s1 where "s1 = s0\<lparr>wn_pending := wn_pending s @ [(h, wn_calls s)], wn_calls := Suc (wn_calls s)\<rparr>"
  have fr: "wn_pending s0 = wn_pending s" "wn_calls s0 = wn_calls s"
    using allocHelper_frame [OF a] by simp_all
  have call: "waitNonblocking ia i (sint v) t s =
              Inr (WN_pending (wn_calls s), [(h, Wait_msg ia i (sint v) T)], s1)"
    using valid ti ld a fr by (simp add: waitNonblocking_def Let_def T_def s1_def)
  have msg: "helper_onmessage (Wait_msg ia i (sint v) T) True = Some (Reply_ok Ok)"
    using valid ld by (simp add: helper_onmessage_def atomics_wait_def)
  have fresh: "h \<notin> fst ` set (wn_pending s)"
    using allocHelper_inv(1) [OF inv a] fr by simp
  define s2 where "s2 = freeHelper h (s1\<lparr>wn_pending := wn_pending s\<rparr>)"
  have filt: "filter (\<lambda>q. fst q \<noteq> h) (wn_pending s) = wn_pending s"
    using fresh by (auto intro: filter_True)
  have reply: "wn_onreply h (Reply_ok Ok) s1 = (Some (wn_calls s, Resolve Ok), s2)"
  proof -
    have "map_of (wn_pending s) h = None" using fresh by (simp add: map_of_eq_None_iff)
    then show ?thesis using filt by (simp add: wn_onreply_def s1_def s2_def map_add_def Let_def)
  qed
  have inv2: "wn_inv s2"
    using wn_inv_reply [OF wn_inv_call [OF inv call] reply] .
  have cr: "wn_created s2 = wn_created s + (if wn_pool s = [] then 1 else 0)"
    using a by (auto simp: s2_def s1_def freeHelper_def allocHelper_def split: if_split_asm)
  show ?thesis
    using call msg reply inv2 cr by (auto simp: s2_def freeHelper_def)
qed

text \<open>The \<^verbatim>\<open>| 0\<close> conversions wrap at 32 bits: an index or an expected value that
  differs by \<open>2^32\<close> gives the same call.\<close>

lemma waitNonblocking_wraps:
  "waitNonblocking ia (i + 2 ^ 32) v t s = waitNonblocking ia i v t s \<and>
   waitNonblocking ia i (v + 2 ^ 32) t s = waitNonblocking ia i v t s"
  by (simp only: waitNonblocking_def to_int32_wrap simp_thms)

text \<open>C27: The polyfill throws exactly in two cases: \<open>TypeError\<close> when the first argument is
  not a shared \<^verbatim>\<open>Int32Array\<close>, and \<open>RangeError\<close> (from \<^verbatim>\<open>Atomics.load\<close>) when the index,
  after its \<^verbatim>\<open>| 0\<close> conversion, lies outside the array; every other call returns a
  promise. The conversion wraps at 32 bits, so an index of \<open>2^32\<close> waits on slot 0 instead
  of raising the \<open>RangeError\<close> of \<^verbatim>\<open>Atomics.waitAsync\<close>.\<close>

theorem waitNonblocking_errors:
  "(waitNonblocking ia i v t s = Inl e \<longleftrightarrow>
     (\<not> ia_valid ia \<and> e = TypeError) \<or>
     (ia_valid ia \<and> \<not> (0 \<le> to_int32 i \<and> nat (to_int32 i) < length (ia_cells ia)) \<and> e = RangeError)) \<and>
   waitNonblocking ia (i + 2 ^ 32) v t s = waitNonblocking ia i v t s"
  using waitNonblocking_wraps [of ia i v t s]
  by (cases "allocHelper s") (auto simp: waitNonblocking_def atomics_load_def Let_def)

section \<open>Witnesses\<close>

lemma demo_call0:
  "waitNonblocking demo_ia 0 0 None wn_init =
   Inr (WN_pending 0, [(0, Wait_msg demo_ia 0 0 \<infinity>)],
        \<lparr>wn_pool = [], wn_created = 1, wn_pending = [(0, 0)], wn_calls = 1\<rparr>)"
  by (simp add: waitNonblocking_def demo_ia_def ia_valid_def atomics_load_def to_int32_def
                allocHelper_def wn_init_def)

lemma demo_call1:
  "waitNonblocking demo_ia 0 0 None \<lparr>wn_pool = [], wn_created = 1, wn_pending = [(0, 0)], wn_calls = 1\<rparr> =
   Inr (WN_pending 1, [(1, Wait_msg demo_ia 0 0 \<infinity>)],
        \<lparr>wn_pool = [], wn_created = 2, wn_pending = [(0, 0), (1, 1)], wn_calls = 2\<rparr>)"
  by (simp add: waitNonblocking_def demo_ia_def ia_valid_def atomics_load_def to_int32_def
                allocHelper_def)

lemma demo_reply0:
  "wn_onreply 0 (Reply_ok Ok) \<lparr>wn_pool = [], wn_created = 2, wn_pending = [(0, 0), (1, 1)], wn_calls = 2\<rparr> =
   (Some (0, Resolve Ok), \<lparr>wn_pool = [0], wn_created = 2, wn_pending = [(1, 1)], wn_calls = 2\<rparr>)"
  by (simp add: wn_onreply_def freeHelper_def)

lemma demo_reach:
  "wn_reach \<lparr>wn_pool = [0], wn_created = 2, wn_pending = [(1, 1)], wn_calls = 2\<rparr>"
  by (rule wn_reach.reply [OF wn_reach.call [OF wn_reach.call [OF wn_reach.init demo_call0] demo_call1] demo_reply0])

theorem wn_helpers_accounted_witness:
  "wn_inv \<lparr>wn_pool = [0], wn_created = 2, wn_pending = [(1, 1)], wn_calls = 2\<rparr>"
  using wn_helpers_accounted [OF demo_reach] by simp

theorem waitNonblocking_roundtrip_witness:
  "\<exists>h m s1 s2.
     waitNonblocking demo_ia 0 0 None wn_init = Inr (WN_pending 0, [(h, m)], s1) \<and>
     helper_onmessage m True = Some (Reply_ok Ok) \<and>
     wn_onreply h (Reply_ok Ok) s1 = (Some (0, Resolve Ok), s2) \<and>
     wn_inv s2 \<and> wn_pending s2 = [] \<and> wn_created s2 = 1"
  using waitNonblocking_roundtrip [OF wn_inv_init, of demo_ia 0 0 None]
  by (simp add: demo_ia_def ia_valid_def wn_init_def)

theorem waitNonblocking_errors_witness:
  "waitNonblocking demo_ia 1 0 None wn_init = Inl RangeError \<and>
   waitNonblocking (demo_ia\<lparr>ia_shared := False\<rparr>) 0 0 None wn_init = Inl TypeError \<and>
   waitNonblocking demo_ia (2 ^ 32) 0 None wn_init = waitNonblocking demo_ia 0 0 None wn_init"
  using waitNonblocking_errors [of demo_ia 1 0 None wn_init RangeError]
        waitNonblocking_errors [of "demo_ia\<lparr>ia_shared := False\<rparr>" 0 0 None wn_init TypeError]
        waitNonblocking_errors [of demo_ia 0 0 None wn_init RangeError]
  by (simp add: demo_ia_def ia_valid_def to_int32_def)

end
