(* ===== verification/Chunking.thy ===== *)
theory Chunking
  imports Prelude
begin

text \<open>
  How the stream is cut into buffer-sized chunks: the length rule both sides use, the
  loop's sequence of (offset, length) pairs as a partial function, its closed form, and
  the properties the spec states of it (count, total, last chunk, round trip, termination).
\<close>


section \<open>The chunk loop\<close>

text \<open>
  Both directions cut the stream the same way: \<^verbatim>\<open>WorkerProxy.push\<close> (lib.ts 191-194) and
  \<^verbatim>\<open>FileTranformingWorker\<close> / \<^verbatim>\<open>CompressWorker\<close> (lib.ts 342-345, compress.worker.ts
  93-96) take a full buffer unless the buffer would pass the end, and then the remainder
  \<^verbatim>\<open>length % bufferSize\<close>.
\<close>

definition chunk_size :: "nat \<Rightarrow> nat \<Rightarrow> nat \<Rightarrow> nat" where
  "chunk_size bufsize len off = (if len < off + bufsize then len mod bufsize else bufsize)"

text \<open>
  The offsets and lengths the \<^verbatim>\<open>while (offset < length)\<close> loop visits, in order. The
  loop does not end when the buffer size is 0 (each chunk is empty and the offset stays),
  so it is a partial function: \<open>None\<close> is the loop that never returns.
\<close>

partial_function (option) chunk_plan :: "nat \<Rightarrow> nat \<Rightarrow> nat \<Rightarrow> (nat \<times> nat) list option" where
  "chunk_plan bufsize len off =
     (if off < len then
        (let n = chunk_size bufsize len off in
         Option.bind (chunk_plan bufsize len (off + n)) (\<lambda>rest. Some ((off, n) # rest)))
      else Some [])"

declare chunk_plan.simps [code]

text \<open>
  The reference: \<open>\<lceil>len / c\<rceil>\<close> chunks, the \<open>i\<close>-th at \<open>i * c\<close> of length
  \<open>min c (len - i * c)\<close>.
\<close>

definition nchunks :: "nat \<Rightarrow> nat \<Rightarrow> nat" where
  "nchunks c len = (len + c - 1) div c"

definition plan_of :: "nat \<Rightarrow> nat \<Rightarrow> nat \<Rightarrow> (nat \<times> nat) list" where
  "plan_of c len j = map (\<lambda>i. (i * c, min c (len - i * c))) [j..<nchunks c len]"

section \<open>The loop against its reference\<close>

lemma nchunks_less_iff: "0 < c \<Longrightarrow> m < nchunks c len \<longleftrightarrow> m * c < len"
proof -
  assume c: "0 < c"
  have "m < nchunks c len \<longleftrightarrow> Suc m \<le> (len + c - 1) div c" by (simp add: nchunks_def Suc_le_eq)
  also have "\<dots> \<longleftrightarrow> Suc m * c \<le> len + c - 1" using c by (rule less_eq_div_iff_mult_less_eq)
  also have "\<dots> \<longleftrightarrow> m * c < len" using c by auto
  finally show ?thesis .
qed

lemma chunk_plan_at_end: "chunk_plan c len len = Some []"
  by (simp add: chunk_plan.simps)

lemma chunk_size_at:
  assumes c: "0 < c" and lt: "m * c < len"
  shows "chunk_size c len (m * c) = min c (len - m * c)"
proof (cases "len < m * c + c")
  case True
  have "len mod c = (len - m * c + m * c) mod c" using lt by simp
  also have "\<dots> = (len - m * c) mod c" by (simp only: mod_mult_self1)
  also have "\<dots> = len - m * c"
    by (rule mod_less) (use True lt in \<open>simp add: less_diff_conv2\<close>)
  finally show ?thesis using True by (simp add: chunk_size_def)
next
  case False
  then show ?thesis by (simp add: chunk_size_def)
qed

lemma chunk_plan_closed:
  assumes c: "0 < c"
  shows "chunk_plan c len (j * c) = Some (plan_of c len j)"
proof (induction "nchunks c len - j" arbitrary: j)
  case 0
  then have "\<not> j < nchunks c len" by simp
  then have "\<not> j * c < len" using nchunks_less_iff [OF c] by simp
  then show ?case using 0 by (simp add: chunk_plan.simps plan_of_def)
next
  case (Suc d)
  then have j: "j < nchunks c len" by simp
  then have lt: "j * c < len" using nchunks_less_iff [OF c] by simp
  have upt: "[j..<nchunks c len] = j # [Suc j..<nchunks c len]" using j by (simp add: upt_rec)
  have IH: "chunk_plan c len (Suc j * c) = Some (plan_of c len (Suc j))"
    by (rule Suc.hyps(1)) (use Suc.hyps(2) in simp)
  have step: "j * c + min c (len - j * c) = min len (Suc j * c)" using lt by (auto simp: min_def)
  show ?case
  proof (cases "len \<le> Suc j * c")
    case True
    have "\<not> Suc j < nchunks c len" using True nchunks_less_iff [OF c] by simp
    then have "[Suc j..<nchunks c len] = []" by simp
    then show ?thesis using lt upt step True
      by (simp add: chunk_plan.simps [of c len "j * c"] chunk_size_at [OF c lt] chunk_plan_at_end
          plan_of_def min_absorb1)
  next
    case False
    then show ?thesis using lt upt step IH
      by (simp add: chunk_plan.simps [of c len "j * c"] chunk_size_at [OF c lt] plan_of_def min_absorb2
          add.commute)
  qed
qed

lemma chunk_step_min: "m * c < len \<Longrightarrow> m * c + min c (len - m * c) = min len (Suc m * c)"
  by (auto simp: min_def)

lemma plan_of_prefix:
  assumes c: "0 < c" and m: "m \<le> nchunks c len"
  shows "concat (map (\<lambda>(ofs, n). take n (drop ofs xs)) (map (\<lambda>i. (i * c, min c (len - i * c))) [0..<m]))
           = take (min len (m * c)) xs"
  using m
proof (induction m)
  case 0
  then show ?case by simp
next
  case (Suc m)
  then have "m < nchunks c len" by simp
  then have "m * c < len" using nchunks_less_iff [OF c] by simp
  then have "take (m * c) xs @ take (min c (len - m * c)) (drop (m * c) xs) = take (min len (Suc m * c)) xs"
    by (simp only: take_add [symmetric] chunk_step_min)
  with Suc \<open>m * c < len\<close> show ?case by (simp add: min_absorb2 less_imp_le)
qed

lemma nchunks_covers: "0 < c \<Longrightarrow> len \<le> nchunks c len * c"
  using nchunks_less_iff [of c "nchunks c len" len] by simp

lemma plan_of_concat:
  assumes "0 < c" and "length xs = len"
  shows "concat (map (\<lambda>(ofs, n). take n (drop ofs xs)) (plan_of c len 0)) = xs"
proof -
  have "concat (map (\<lambda>(ofs, n). take n (drop ofs xs)) (plan_of c len 0)) = take (min len (nchunks c len * c)) xs"
    unfolding plan_of_def using plan_of_prefix [OF assms(1), of "nchunks c len" len xs] by simp
  also have "\<dots> = xs" using nchunks_covers [OF assms(1), of len] assms(2) by (simp add: min_absorb1)
  finally show ?thesis .
qed

lemma plan_of_sizes:
  assumes c: "0 < c" and m: "m \<le> nchunks c len"
  shows "sum_list (map (\<lambda>i. min c (len - i * c)) [0..<m]) = min len (m * c)"
  using m
proof (induction m)
  case 0
  then show ?case by simp
next
  case (Suc m)
  then have "m < nchunks c len" by simp
  then have lt: "m * c < len" using nchunks_less_iff [OF c] by simp
  then have "min len (m * c) + min c (len - m * c) = min len (Suc m * c)"
    using chunk_step_min [OF lt] by (simp add: min_absorb2 less_imp_le)
  with Suc show ?case by simp
qed

lemma nchunks_pos: "0 < c \<Longrightarrow> 0 < len \<Longrightarrow> 0 < nchunks c len"
  using nchunks_less_iff [of c 0 len] by simp

lemma plan_of_last_size:
  assumes c: "0 < c" and l: "0 < len"
  shows "min c (len - (nchunks c len - 1) * c) = (if len mod c = 0 then c else len mod c)"
proof -
  let ?k = "nchunks c len"
  have k: "0 < ?k" by (rule nchunks_pos [OF c l])
  have below: "(?k - 1) * c < len" using nchunks_less_iff [OF c, of "?k - 1" len] k by simp
  have above: "len \<le> ?k * c" by (rule nchunks_covers [OF c])
  have ks: "?k * c = (?k - 1) * c + c" using k by (cases ?k) simp_all
  have r: "len - (?k - 1) * c \<le> c" using above ks by linarith
  have "len = (?k - 1) * c + (len - (?k - 1) * c)" using below by simp
  then have "len mod c = (len - (?k - 1) * c) mod c" by (metis mod_mult_self3)
  moreover have "0 < len - (?k - 1) * c" using below by simp
  ultimately show ?thesis using r
    by (cases "len - (?k - 1) * c = c") (simp_all add: min_absorb2)
qed
section \<open>Termination, totals, round trip\<close>

lemma chunk_plan_zero_stuck:
  assumes ret: "chunk_plan c len off = Some r"
  shows "c = 0 \<longrightarrow> \<not> off < len"
proof (rule chunk_plan.raw_induct [where P = "\<lambda>c len off r. c = 0 \<longrightarrow> \<not> off < len", OF _ ret])
  fix f :: "nat \<Rightarrow> nat \<Rightarrow> nat \<Rightarrow> (nat \<times> nat) list option" and c len off r
  assume IH: "\<And>c len off r. f c len off = Some r \<Longrightarrow> c = 0 \<longrightarrow> \<not> off < len"
    and eq: "(if off < len then let n = chunk_size c len off
              in Option.bind (f c len (off + n)) (\<lambda>rest. Some ((off, n) # rest))
              else Some []) = Some r"
  show "c = 0 \<longrightarrow> \<not> off < len"
  proof (intro impI notI)
    assume c0: "c = 0" and lt: "off < len"
    then have "chunk_size c len off = 0" by (simp add: chunk_size_def)
    with eq lt obtain rest where "f c len off = Some rest" by (auto split: Option.bind_splits)
    then show False using IH c0 lt by blast
  qed
qed

lemma chunk_plan_zero_diverges: "off < len \<Longrightarrow> chunk_plan 0 len off = None"
  using chunk_plan_zero_stuck [of 0 len off] by (cases "chunk_plan 0 len off") auto

lemma chunk_plan_from_0: "0 < c \<Longrightarrow> chunk_plan c len 0 = Some (plan_of c len 0)"
  using chunk_plan_closed [of c len 0] by simp

lemma chunk_plan_empty: "chunk_plan c 0 0 = Some []"
  by (simp add: chunk_plan.simps)

lemma chunk_plan_Some_cases:
  assumes "chunk_plan c len 0 = Some cs"
  obtains "0 < c" "cs = plan_of c len 0" | "len = 0" "cs = []"
proof (cases "0 < c")
  case True
  then show ?thesis using assms chunk_plan_from_0 that(1) by simp
next
  case False
  have "len = 0"
  proof (rule ccontr)
    assume "len \<noteq> 0"
    then have "chunk_plan 0 len 0 = None" by (intro chunk_plan_zero_diverges) simp
    then show False using assms False by simp
  qed
  then show ?thesis using assms chunk_plan_empty that(2) by simp
qed

text \<open>
  C13: Termination of the chunk loop. The loop over a stream of length \<open>len\<close> with buffer
  size \<open>c\<close> returns exactly when \<open>c > 0\<close> or the stream is empty; with a zero buffer
  size and a non-empty stream it runs forever.
\<close>

theorem chunk_plan_total: "(\<exists>cs. chunk_plan c len 0 = Some cs) \<longleftrightarrow> (0 < c \<or> len = 0)"
proof
  assume "\<exists>cs. chunk_plan c len 0 = Some cs"
  then obtain cs where "chunk_plan c len 0 = Some cs" by blast
  then show "0 < c \<or> len = 0" by (cases rule: chunk_plan_Some_cases) simp_all
next
  assume "0 < c \<or> len = 0"
  then show "\<exists>cs. chunk_plan c len 0 = Some cs"
    using chunk_plan_from_0 [of c len] chunk_plan_empty [of c] by blast
qed

text \<open>
  C12: Round trip. Concatenating the windows the loop copies, in the order it visits them,
  gives back the whole input: nothing is dropped, repeated or reordered.
\<close>

theorem chunk_plan_roundtrip:
  assumes "chunk_plan c len 0 = Some cs" and "length xs = len"
  shows "concat (map (\<lambda>(ofs, n). take n (drop ofs xs)) cs) = xs"
  using assms(1)
proof (cases rule: chunk_plan_Some_cases)
  case 1
  then show ?thesis using plan_of_concat assms(2) by simp
next
  case 2
  then show ?thesis using assms(2) by simp
qed

text \<open>The loop transfers \<open>\<lceil>len / c\<rceil>\<close> chunks and their lengths sum to \<open>len\<close>.\<close>

lemma chunk_plan_length_sum:
  assumes "chunk_plan c len 0 = Some cs"
  shows "length cs = nchunks c len \<and> sum_list (map snd cs) = len"
  using assms
proof (cases rule: chunk_plan_Some_cases)
  case 1
  have "sum_list (map snd cs) = min len (nchunks c len * c)"
    using 1 plan_of_sizes [OF 1(1) order_refl] by (simp add: plan_of_def comp_def)
  then show ?thesis using 1 nchunks_covers [OF 1(1), of len] by (simp add: plan_of_def min_absorb1)
next
  case 2
  then show ?thesis by (cases c) (simp_all add: nchunks_def)
qed

text \<open>For a non-empty stream the last chunk has length \<open>len mod c\<close> when that is not zero,
  and a full buffer \<open>c\<close> otherwise.\<close>

lemma chunk_plan_last:
  assumes "chunk_plan c len 0 = Some cs" and "0 < len"
  shows "snd (last cs) = (if len mod c = 0 then c else len mod c)"
  using assms(1)
proof (cases rule: chunk_plan_Some_cases)
  case 1
  have k: "0 < nchunks c len" by (rule nchunks_pos [OF 1(1) assms(2)])
  then have "[0..<nchunks c len] = [0..<nchunks c len - 1] @ [nchunks c len - 1]"
    by (metis Suc_diff_1 upt_Suc_append zero_le)
  then have "snd (last cs) = min c (len - (nchunks c len - 1) * c)"
    using 1 by (simp add: plan_of_def)
  then show ?thesis using plan_of_last_size [OF 1(1) assms(2)] by simp
next
  case 2
  then show ?thesis using assms(2) by simp
qed

text \<open>
  C10: Chunk count, total and final chunk. The loop transfers \<open>\<lceil>len / c\<rceil>\<close> chunks,
  their lengths sum to \<open>len\<close> exactly, and for a non-empty stream the last one has length
  \<open>len mod c\<close> when that is not zero and a full buffer \<open>c\<close> otherwise (so a stream
  whose length is a multiple of \<open>c\<close> ends on a full chunk, which the worker does not take
  for the end: C5).
\<close>

theorem chunk_plan_count_sum:
  assumes "chunk_plan c len 0 = Some cs"
  shows "length cs = nchunks c len \<and> sum_list (map snd cs) = len \<and>
         (0 < len \<longrightarrow> snd (last cs) = (if len mod c = 0 then c else len mod c))"
  using chunk_plan_length_sum [OF assms] chunk_plan_last [OF assms] by simp

text \<open>
  C14: Bounds. Every chunk is non-empty, fits in the buffer it is copied into, and lies
  inside the input; so the size check of \<^verbatim>\<open>push\<close> (lib.ts 197-201) never throws and
  the input view never passes the end.
\<close>

theorem chunk_plan_bounds:
  assumes "chunk_plan c len 0 = Some cs" and "(ofs, n) \<in> set cs"
  shows "0 < n \<and> n \<le> c \<and> ofs + n \<le> len"
  using assms(1)
proof (cases rule: chunk_plan_Some_cases)
  case 1
  then obtain i where i: "i < nchunks c len" "ofs = i * c" "n = min c (len - i * c)"
    using assms(2) by (auto simp: plan_of_def)
  then have "i * c < len" using nchunks_less_iff [OF 1(1)] by simp
  then show ?thesis using i 1(1) by auto
next
  case 2
  then show ?thesis using assms(2) by simp
qed

section \<open>Witnesses\<close>

lemma chunk_plan_4_10: "chunk_plan 4 10 0 = Some [(0, 4), (4, 4), (8, 2)]"
  by (simp add: chunk_plan.simps chunk_size_def)

theorem chunk_plan_total_witness:
  "(\<exists>cs. chunk_plan 4 10 0 = Some cs) \<and> chunk_plan 0 10 0 = None"
  using chunk_plan_total [of 4 10] chunk_plan_total [of 0 10] by simp

theorem chunk_plan_roundtrip_witness:
  "chunk_plan 4 10 0 = Some [(0, 4), (4, 4), (8, 2)] \<and> length ([1, 2, 3, 4, 5, 6, 7, 8, 9, 10] :: bytes) = 10 \<and>
   concat (map (\<lambda>(ofs, n). take n (drop ofs ([1, 2, 3, 4, 5, 6, 7, 8, 9, 10] :: bytes)))
     [(0, 4), (4, 4), (8, 2)]) = [1, 2, 3, 4, 5, 6, 7, 8, 9, 10]"
  using chunk_plan_roundtrip [OF chunk_plan_4_10, of "[1, 2, 3, 4, 5, 6, 7, 8, 9, 10] :: bytes"]
    chunk_plan_4_10 by simp

theorem chunk_plan_count_sum_witness:
  "chunk_plan 4 10 0 = Some [(0, 4), (4, 4), (8, 2)] \<and> nchunks 4 10 = 3 \<and>
   sum_list (map snd [(0::nat, 4::nat), (4, 4), (8, 2)]) = 10 \<and>
   snd (last [(0::nat, 4::nat), (4, 4), (8, 2)]) = 10 mod 4"
  using chunk_plan_count_sum [OF chunk_plan_4_10] chunk_plan_4_10 by simp

theorem chunk_plan_bounds_witness:
  "chunk_plan 4 10 0 = Some [(0, 4), (4, 4), (8, 2)] \<and> (8, 2) \<in> set [(0::nat, 4::nat), (4, 4), (8, 2)] \<and>
   0 < (2::nat) \<and> (2::nat) \<le> 4 \<and> (8::nat) + 2 \<le> 10"
  using chunk_plan_bounds [OF chunk_plan_4_10, of 8 2] chunk_plan_4_10 by simp

end
