(* ===== verification/Channel.thy ===== *)
theory Channel
  imports Lock
begin

text \<open>
  What the two sides of a transform share: the configuration (\<^verbatim>\<open>TaskConf\<close>), the status
  values, the shared buffers (named by identity, their bytes in a map), the messages each
  side posts to the other, and the layout of the four lock and condition slots in the
  32-byte \<^verbatim>\<open>lockSab\<close>, as \<^verbatim>\<open>WorkerProxy\<close> and \<^verbatim>\<open>FileTranformingWorker\<close> build it
  (src/src/lib.ts).
\<close>

section \<open>Configuration and status\<close>

definition DEFAULT_BUFFER_SIZE :: nat where
  "DEFAULT_BUFFER_SIZE = 512 * 1024"

record task_conf =
  writeBufferSize :: nat
  readBufferSize :: nat

definition defaultTaskOpts :: task_conf where
  "defaultTaskOpts = \<lparr>writeBufferSize = DEFAULT_BUFFER_SIZE, readBufferSize = DEFAULT_BUFFER_SIZE\<rparr>"

text \<open>
  The options object the caller passes; a field may be missing at run time, and
  \<^verbatim>\<open>Object.assign({}, defaultTaskOpts, opts)\<close> takes each field from \<^verbatim>\<open>opts\<close> when it has it.
\<close>

record task_opts =
  opt_write :: "nat option"
  opt_read :: "nat option"

definition assign_opts :: "task_conf \<Rightarrow> task_opts \<Rightarrow> task_conf" where
  "assign_opts d o' =
     \<lparr>writeBufferSize = (case opt_write o' of Some n \<Rightarrow> n | None \<Rightarrow> writeBufferSize d),
      readBufferSize = (case opt_read o' of Some n \<Rightarrow> n | None \<Rightarrow> readBufferSize d)\<rparr>"

text \<open>
  \<^verbatim>\<open>WorkerProxyStatus\<close> and \<^verbatim>\<open>FileTranformingWorkerStatus\<close> are the same constants
  (0, 1, 2, 3, -1); one datatype serves both sides.
\<close>

datatype status = INIT | INITED | WORKING | FINISHED | ERROR

primrec status_code :: "status \<Rightarrow> int" where
  "status_code INIT = 0"
| "status_code INITED = 1"
| "status_code WORKING = 2"
| "status_code FINISHED = 3"
| "status_code ERROR = -1"

section \<open>Shared buffers and messages\<close>

text \<open>
  A \<^verbatim>\<open>SharedArrayBuffer\<close> is named by its identity; both sides reach the same bytes
  through it. The proxy allocates three: the lock slots, its write buffer and its read
  buffer.
\<close>

datatype sab_id = LockSab | ProxyWriteBuf | ProxyReadBuf

type_synonym shared_mem = "sab_id \<Rightarrow> bytes"

record init_payload =
  ip_readBuffer :: sab_id
  ip_writeBuffer :: sab_id
  ip_readBufferSize :: nat
  ip_writeBufferSize :: nat
  ip_fileLength :: nat
  ip_lockSab :: sab_id

text \<open>
  Messages to the worker: \<^verbatim>\<open>["init", payload]\<close>, \<^verbatim>\<open>["push", undefined]\<close>, and, for the
  branches of the worker's \<^verbatim>\<open>onMessage\<close> that reject a message, one with another event
  name and one shorter than two elements.
\<close>

datatype to_worker =
    W_Init init_payload
  | W_Push
  | W_Other string
  | W_Short

text \<open>
  Messages to the proxy: \<^verbatim>\<open>["inited"]\<close>, \<^verbatim>\<open>["push", n]\<close> (the payload may be absent),
  \<^verbatim>\<open>["finish"]\<close>, \<^verbatim>\<open>["error", e]\<close>, and any other event name.
\<close>

datatype to_main =
    M_Inited
  | M_Push "nat option"
  | M_Finish
  | M_Error js_error
  | M_Other string

section \<open>Lock and condition slots\<close>

definition COND_NUMBYTES :: nat where "COND_NUMBYTES = 4"
definition COND_ALIGN :: nat where "COND_ALIGN = 4"

text \<open>
  \<^verbatim>\<open>new Cond(lock, loc)\<close>: the location is checked against the lock's buffer; the
  condition's slot index is \<^verbatim>\<open>loc >>> 2\<close>.
\<close>

record cond_obj =
  cd_lock :: lock_obj
  cd_ibase :: nat

definition new_cond :: "lock_obj \<Rightarrow> int \<Rightarrow> js_error + cond_obj" where
  "new_cond lk loc =
     (if check_parameters True (lk_sab_len lk) loc COND_ALIGN COND_NUMBYTES
      then Inr \<lparr>cd_lock = lk, cd_ibase = nat loc div 4\<rparr>
      else Inl BadArguments)"

text \<open>The two lock/condition pairs one side sees, as built from a 32-byte lock buffer.\<close>

record sync_view =
  sv_readLock :: lock_obj
  sv_readCond :: cond_obj
  sv_writeLock :: lock_obj
  sv_writeCond :: cond_obj

definition LOCK_SAB_BYTES :: nat where
  "LOCK_SAB_BYTES = 4 * 8"

text \<open>
  Both sides build their view with the same four constructor calls and differ only in the
  byte offsets: the proxy puts its read pair at 0/8 and its write pair at 16/24 (lib.ts
  89-92), the worker the other way round (lib.ts 317-320, compress.worker.ts 69-72).
\<close>

definition build_view :: "int \<Rightarrow> int \<Rightarrow> int \<Rightarrow> int \<Rightarrow> js_error + sync_view" where
  "build_view rl rc wl wc =
     (case new_lock True LOCK_SAB_BYTES rl of Inl e \<Rightarrow> Inl e | Inr readLock \<Rightarrow>
      case new_cond readLock rc of Inl e \<Rightarrow> Inl e | Inr readCond \<Rightarrow>
      case new_lock True LOCK_SAB_BYTES wl of Inl e \<Rightarrow> Inl e | Inr writeLock \<Rightarrow>
      case new_cond writeLock wc of Inl e \<Rightarrow> Inl e | Inr writeCond \<Rightarrow>
        Inr \<lparr>sv_readLock = readLock, sv_readCond = readCond,
             sv_writeLock = writeLock, sv_writeCond = writeCond\<rparr>)"

definition proxy_view :: "js_error + sync_view" where
  "proxy_view = build_view (0 * 8) (1 * 8) (2 * 8) (3 * 8)"

definition worker_view :: "js_error + sync_view" where
  "worker_view = build_view (2 * 8) (3 * 8) (0 * 8) (1 * 8)"

text \<open>The slot indices a view uses, read lock first.\<close>

definition view_slots :: "sync_view \<Rightarrow> nat list" where
  "view_slots v = [lk_ibase (sv_readLock v), cd_ibase (sv_readCond v),
                   lk_ibase (sv_writeLock v), cd_ibase (sv_writeCond v)]"

section \<open>The two views are mirrored\<close>

lemma proxy_view_eq:
  "proxy_view = Inr \<lparr>sv_readLock = \<lparr>lk_sab_len = 32, lk_ibase = 0\<rparr>,
     sv_readCond = \<lparr>cd_lock = \<lparr>lk_sab_len = 32, lk_ibase = 0\<rparr>, cd_ibase = 2\<rparr>,
     sv_writeLock = \<lparr>lk_sab_len = 32, lk_ibase = 4\<rparr>,
     sv_writeCond = \<lparr>cd_lock = \<lparr>lk_sab_len = 32, lk_ibase = 4\<rparr>, cd_ibase = 6\<rparr>\<rparr>"
  by (simp add: proxy_view_def build_view_def new_lock_def new_cond_def check_parameters_def
      LOCK_SAB_BYTES_def LOCK_ALIGN_def LOCK_NUMBYTES_def COND_ALIGN_def COND_NUMBYTES_def)

lemma worker_view_eq:
  "worker_view = Inr \<lparr>sv_readLock = \<lparr>lk_sab_len = 32, lk_ibase = 4\<rparr>,
     sv_readCond = \<lparr>cd_lock = \<lparr>lk_sab_len = 32, lk_ibase = 4\<rparr>, cd_ibase = 6\<rparr>,
     sv_writeLock = \<lparr>lk_sab_len = 32, lk_ibase = 0\<rparr>,
     sv_writeCond = \<lparr>cd_lock = \<lparr>lk_sab_len = 32, lk_ibase = 0\<rparr>, cd_ibase = 2\<rparr>\<rparr>"
  by (simp add: worker_view_def build_view_def new_lock_def new_cond_def check_parameters_def
      LOCK_SAB_BYTES_def LOCK_ALIGN_def LOCK_NUMBYTES_def COND_ALIGN_def COND_NUMBYTES_def)

end
