(* ===== verification/Serialize.thy ===== *)
theory Serialize
  imports Channel
begin

text \<open>
  The postMessage representations of locks and conditions (lock.js 153-167 and 287-309):
  \<^verbatim>\<open>serialize\<close> records the shared buffer and the byte location, and \<^verbatim>\<open>deserialize\<close> returns
  \<^verbatim>\<open>null\<close> for anything that is not such a representation and otherwise rebuilds the object
  with its constructor, which checks the parameters again. The program itself passes the
  lock buffer and rebuilds the views (Channel); these functions are the library's other
  route to the same objects.
\<close>

section \<open>Representations\<close>

text \<open>\<^verbatim>\<open>{ isLockObject: true, sab, loc }\<close>: the marker, the buffer as the constructor checks
  it (whether it is a \<^verbatim>\<open>SharedArrayBuffer\<close>, its length), and the location.\<close>

record lock_repr =
  lr_isLockObject :: bool
  lr_is_sab :: bool
  lr_sab_len :: nat
  lr_loc :: int

text \<open>\<^verbatim>\<open>{ isCondObject: true, lock, loc }\<close>; a missing or non-object \<^verbatim>\<open>lock\<close> is \<open>None\<close>.\<close>

record cond_repr =
  cr_isCondObject :: bool
  cr_lock :: "lock_repr option"
  cr_loc :: int

definition lock_serialize :: "lock_obj \<Rightarrow> lock_repr" where
  "lock_serialize lk =
     \<lparr>lr_isLockObject = True, lr_is_sab = True, lr_sab_len = lk_sab_len lk, lr_loc = int (lk_ibase lk * 4)\<rparr>"

text \<open>\<^verbatim>\<open>Lock.deserialize(repr)\<close>: \<open>None\<close> as the argument is a value that is not an object, or
  \<^verbatim>\<open>null\<close>; the result \<open>Inr None\<close> is the returned \<^verbatim>\<open>null\<close>, \<open>Inl\<close> the constructor's throw.\<close>

definition lock_deserialize :: "lock_repr option \<Rightarrow> js_error + lock_obj option" where
  "lock_deserialize r =
     (case r of
        None \<Rightarrow> Inr None
      | Some repr \<Rightarrow>
          if \<not> lr_isLockObject repr then Inr None
          else (case new_lock (lr_is_sab repr) (lr_sab_len repr) (lr_loc repr) of
                  Inl e \<Rightarrow> Inl e
                | Inr lk \<Rightarrow> Inr (Some lk)))"

definition cond_serialize :: "cond_obj \<Rightarrow> cond_repr" where
  "cond_serialize c =
     \<lparr>cr_isCondObject = True, cr_lock = Some (lock_serialize (cd_lock c)), cr_loc = int (cd_ibase c * 4)\<rparr>"

definition cond_deserialize :: "cond_repr option \<Rightarrow> js_error + cond_obj option" where
  "cond_deserialize r =
     (case r of
        None \<Rightarrow> Inr None
      | Some repr \<Rightarrow>
          if \<not> cr_isCondObject repr then Inr None
          else (case lock_deserialize (cr_lock repr) of
                  Inl e \<Rightarrow> Inl e
                | Inr None \<Rightarrow> Inr None
                | Inr (Some lk) \<Rightarrow>
                    (case new_cond lk (cr_loc repr) of Inl e \<Rightarrow> Inl e | Inr c \<Rightarrow> Inr (Some c))))"

section \<open>Round trip\<close>

lemma aligned_loc:
  "check_parameters b n loc 4 k \<Longrightarrow> int (nat loc div 4) * 4 = loc"
  unfolding check_parameters_def by (auto simp: zmod_int dvd_imp_mod_0 nat_div_distrib)

lemma new_lock_loc:
  "new_lock True n loc = Inr lk \<Longrightarrow> lk_sab_len lk = n \<and> int (lk_ibase lk * 4) = loc \<and>
     check_parameters True n loc LOCK_ALIGN LOCK_NUMBYTES \<and> n mod 4 = 0"
  by (auto simp: new_lock_def LOCK_ALIGN_def split: if_split_asm intro: aligned_loc)

lemma new_cond_loc:
  "new_cond lk loc = Inr c \<Longrightarrow> cd_lock c = lk \<and> int (cd_ibase c * 4) = loc"
  by (auto simp: new_cond_def COND_ALIGN_def split: if_split_asm intro: aligned_loc)

lemma lock_deserialize_serialize:
  "new_lock True n l = Inr lk \<Longrightarrow> lock_deserialize (Some (lock_serialize lk)) = Inr (Some lk)"
  using new_lock_loc [of n l lk] by (simp add: lock_deserialize_def lock_serialize_def)

text \<open>
  C39: \<^verbatim>\<open>deserialize\<close> inverts \<^verbatim>\<open>serialize\<close>: every lock the constructor accepts, and every
  condition built on it, comes back from its representation as the same object (the
  constructors' checks pass again because the location is aligned).
\<close>

theorem serialize_roundtrip:
  assumes lk: "new_lock True n l = Inr lk" and c: "new_cond lk loc = Inr c"
  shows "lock_deserialize (Some (lock_serialize lk)) = Inr (Some lk) \<and>
         cond_deserialize (Some (cond_serialize c)) = Inr (Some c)"
proof
  show l: "lock_deserialize (Some (lock_serialize lk)) = Inr (Some lk)"
    by (rule lock_deserialize_serialize [OF lk])
  have "cd_lock c = lk" "int (cd_ibase c * 4) = loc" using new_cond_loc [OF c] by simp_all
  then show "cond_deserialize (Some (cond_serialize c)) = Inr (Some c)"
    using l c by (simp add: cond_deserialize_def cond_serialize_def)
qed

theorem serialize_roundtrip_witness:
  "lock_deserialize (Some (lock_serialize \<lparr>lk_sab_len = 32, lk_ibase = 4\<rparr>)) =
     Inr (Some \<lparr>lk_sab_len = 32, lk_ibase = 4\<rparr>) \<and>
   cond_deserialize (Some (cond_serialize \<lparr>cd_lock = \<lparr>lk_sab_len = 32, lk_ibase = 4\<rparr>, cd_ibase = 6\<rparr>)) =
     Inr (Some \<lparr>cd_lock = \<lparr>lk_sab_len = 32, lk_ibase = 4\<rparr>, cd_ibase = 6\<rparr>)"
  by (rule serialize_roundtrip [of 32 16 _ 24])
     (simp_all add: new_lock_def new_cond_def check_parameters_def LOCK_ALIGN_def LOCK_NUMBYTES_def
                    COND_ALIGN_def COND_NUMBYTES_def)

end
