(* ===== verification/Producer.thy ===== *)
theory Producer
  imports Complex_Main Channel Chunking
begin

text \<open>
  The producer side, class \<^verbatim>\<open>WorkerProxy\<close> of src/src/lib.ts (lines 51-254): its fields as a
  record, its constructor, \<^verbatim>\<open>initWorker\<close>, \<^verbatim>\<open>done\<close>, \<^verbatim>\<open>onProgress\<close>, \<^verbatim>\<open>onInited\<close>, the
  segments of the async \<^verbatim>\<open>push\<close> between its \<^verbatim>\<open>await\<close>s, \<^verbatim>\<open>onReceived\<close>, \<^verbatim>\<open>onFinished\<close>
  and \<^verbatim>\<open>onError\<close>. The lock and condition operations between the segments are the
  composition's business (Pipeline.thy); each definition here is the code between two of them.
\<close>

section \<open>State\<close>

text \<open>
  What the \<^verbatim>\<open>done()\<close> promise holds: nothing yet, the output chunks, or an error. A promise
  settles once; a later \<^verbatim>\<open>resolve\<close> is ignored.
\<close>

datatype outcome = Pending | Resolved "bytes list" | Rejected js_error

definition settle :: "outcome \<Rightarrow> outcome \<Rightarrow> outcome" where
  "settle old new = (if old = Pending then new else old)"

text \<open>
  The fields of \<^verbatim>\<open>WorkerProxy\<close>: the input \<^verbatim>\<open>__ab\<close>, the merged \<^verbatim>\<open>__opts\<close>, the output
  chunks \<^verbatim>\<open>__targetArrayBuffers\<close>, \<^verbatim>\<open>__status\<close>, \<^verbatim>\<open>__offset\<close>, whether a progress callback
  and the \<^verbatim>\<open>done\<close> resolvers are registered; and, for the effects on the caller, the outcome
  of the promise and the values passed to the progress callback, in order.
\<close>

record wp_state =
  wp_ab :: bytes
  wp_opts :: task_conf
  wp_targets :: "bytes list"
  wp_status :: status
  wp_offset :: nat
  wp_progress_cb :: bool
  wp_done_cb :: bool
  wp_outcome :: outcome
  wp_progress :: "real list"

section \<open>Construction and set-up\<close>

text \<open>
  The constructor: a missing input, worker or options object throws; otherwise the options
  are merged into the defaults, the lock buffer is initialised and viewed (the proxy's view,
  which cannot fail, Channel.thy), and two zero-filled shared buffers of the configured sizes
  are allocated.
\<close>

definition new_worker_proxy :: "bool \<Rightarrow> task_opts option \<Rightarrow> bytes option \<Rightarrow> js_error + (wp_state \<times> shared_mem)" where
  "new_worker_proxy has_worker opts input =
     (case (input, opts) of
        (Some ab, Some o') \<Rightarrow>
          (if \<not> has_worker then Inl MissingParameter
           else case proxy_view of
             Inl e \<Rightarrow> Inl e
           | Inr _ \<Rightarrow>
               (let c = assign_opts defaultTaskOpts o' in
                Inr (\<lparr>wp_ab = ab, wp_opts = c, wp_targets = [], wp_status = INIT, wp_offset = 0,
                      wp_progress_cb = False, wp_done_cb = False, wp_outcome = Pending,
                      wp_progress = []\<rparr>,
                     (\<lambda>b. case b of
                            LockSab \<Rightarrow> replicate LOCK_SAB_BYTES 0
                          | ProxyWriteBuf \<Rightarrow> replicate (writeBufferSize c) 0
                          | ProxyReadBuf \<Rightarrow> replicate (readBufferSize c) 0))))
      | _ \<Rightarrow> Inl MissingParameter)"

text \<open>
  \<^verbatim>\<open>initWorker\<close>: the init message hands the worker the proxy's write buffer as its read
  buffer and the proxy's read buffer as its write buffer, with the sizes swapped the same way.
\<close>

definition initWorker :: "wp_state \<Rightarrow> to_worker" where
  "initWorker wp =
     W_Init \<lparr>ip_readBuffer = ProxyWriteBuf, ip_writeBuffer = ProxyReadBuf,
             ip_readBufferSize = writeBufferSize (wp_opts wp),
             ip_writeBufferSize = readBufferSize (wp_opts wp),
             ip_fileLength = length (wp_ab wp), ip_lockSab = LockSab\<rparr>"

definition register_done :: "wp_state \<Rightarrow> wp_state" where
  "register_done wp = wp\<lparr>wp_done_cb := True\<rparr>"

definition onProgress :: "wp_state \<Rightarrow> wp_state" where
  "onProgress wp = wp\<lparr>wp_progress_cb := True\<rparr>"

section \<open>push\<close>

text \<open>
  The state check at the start of \<^verbatim>\<open>push\<close>: \<open>INITED\<close> becomes \<open>WORKING\<close>, \<open>WORKING\<close>
  stays, anything else throws (from an async function: the promise \<^verbatim>\<open>push()\<close> returns is
  rejected, and nobody awaits it). Then the method awaits \<^verbatim>\<open>asyncLock\<close> on the write lock.
\<close>

definition push_start :: "wp_state \<Rightarrow> js_error + wp_state" where
  "push_start wp =
     (if wp_status wp = INITED then Inr (wp\<lparr>wp_status := WORKING\<rparr>)
      else if wp_status wp = WORKING then Inr wp
      else Inl UnexpectedState)"

text \<open>\<^verbatim>\<open>onInited\<close>: the status becomes \<open>INITED\<close>, then \<^verbatim>\<open>push\<close> starts.\<close>

definition onInited :: "wp_state \<Rightarrow> js_error + wp_state" where
  "onInited wp = push_start (wp\<lparr>wp_status := INITED\<rparr>)"

text \<open>The loop condition of \<^verbatim>\<open>push\<close>.\<close>

definition push_more :: "wp_state \<Rightarrow> bool" where
  "push_more wp \<longleftrightarrow> wp_offset wp < length (wp_ab wp)"

text \<open>
  One pass of the loop body up to the \<^verbatim>\<open>notifyOne\<close>: on the first chunk the worker is told
  data is coming; the chunk is viewed in the input, checked against the write buffer's size,
  copied to the start of the write buffer, and the offset advances. The messages posted
  come with the result, also when the body throws after posting.
\<close>

definition push_chunk :: "wp_state \<Rightarrow> shared_mem \<Rightarrow> to_worker list \<times> (js_error + (wp_state \<times> shared_mem))" where
  "push_chunk wp mem =
     (let off = wp_offset wp;
          msgs = (if off = 0 then [W_Push] else []);
          n = chunk_size (writeBufferSize (wp_opts wp)) (length (wp_ab wp)) off
      in (msgs,
          case ta_view (wp_ab wp) off n of
            Inl e \<Rightarrow> Inl e
          | Inr view \<Rightarrow>
              (if length (mem ProxyWriteBuf) < length view then Inl CapacityExceeded
               else Inr (wp\<lparr>wp_offset := off + n\<rparr>,
                         mem(ProxyWriteBuf := ta_set_prefix (mem ProxyWriteBuf) view)))))"

section \<open>onReceived, onFinished, onError\<close>

text \<open>
  \<^verbatim>\<open>onReceived(size)\<close> after its \<^verbatim>\<open>await asyncLock()\<close> on the read lock. An absent size
  defaults to the read buffer's size. If the status is not \<open>WORKING\<close> the method returns at
  once, still holding the read lock; an oversized chunk throws, also with the lock held.
  Otherwise the chunk is copied out of the read buffer into a new buffer and appended, and
  the progress callback gets \<open>offset / length * 100\<close>; then the method notifies and unlocks.
\<close>

datatype recv_result = Recv_Ignored | Recv_Failed js_error | Recv_Done wp_state

definition onReceived :: "wp_state \<Rightarrow> shared_mem \<Rightarrow> nat option \<Rightarrow> recv_result" where
  "onReceived wp mem size_arg =
     (let size = (case size_arg of Some n \<Rightarrow> n | None \<Rightarrow> readBufferSize (wp_opts wp)) in
      if wp_status wp \<noteq> WORKING then Recv_Ignored
      else if readBufferSize (wp_opts wp) < size then Recv_Failed OversizedChunk
      else case ta_view (mem ProxyReadBuf) 0 size of
        Inl e \<Rightarrow> Recv_Failed e
      | Inr chunk \<Rightarrow>
          Recv_Done (wp\<lparr>wp_targets := wp_targets wp @ [chunk],
                        wp_progress :=
                          (if wp_progress_cb wp
                           then wp_progress wp @ [real (wp_offset wp) / real (length (wp_ab wp)) * 100]
                           else wp_progress wp)\<rparr>))"

text \<open>
  \<^verbatim>\<open>onFinished\<close>: the status becomes \<open>FINISHED\<close>, the promise is resolved with the output
  chunks (if \<^verbatim>\<open>done()\<close> registered its resolver), and the progress callback gets 100.
\<close>

definition onFinished :: "wp_state \<Rightarrow> wp_state" where
  "onFinished wp =
     (let wp1 = wp\<lparr>wp_status := FINISHED\<rparr>;
          wp2 = (if wp_done_cb wp then wp1\<lparr>wp_outcome := settle (wp_outcome wp) (Resolved (wp_targets wp))\<rparr>
                 else wp1)
      in if wp_progress_cb wp then wp2\<lparr>wp_progress := wp_progress wp @ [100]\<rparr> else wp2)"

text \<open>
  \<^verbatim>\<open>onError(err)\<close>: the status becomes \<open>ERROR\<close> and the error is thrown out of the message
  handler. The \<^verbatim>\<open>done()\<close> promise is not touched.
\<close>

definition onError :: "wp_state \<Rightarrow> js_error \<Rightarrow> wp_state \<times> js_error" where
  "onError wp err = (wp\<lparr>wp_status := ERROR\<rparr>, err)"

section \<open>The message switch\<close>

text \<open>
  \<^verbatim>\<open>__onMessage([event, payload])\<close> (lib.ts 141-159), installed as the worker's
  \<^verbatim>\<open>onmessage\<close>. \<^verbatim>\<open>onInited\<close> starts the asynchronous \<^verbatim>\<open>push\<close> and \<^verbatim>\<open>onReceived\<close> is
  asynchronous itself, so their failures reject promises nobody awaits; \<^verbatim>\<open>onError\<close> and
  the default branch throw. Either way the handler ends with an error and the proxy keeps the
  state it reached. \<open>WP_Ignored\<close> is the early return of \<^verbatim>\<open>onReceived\<close>.
\<close>

datatype wp_dispatch = WP_Done wp_state | WP_Ignored | WP_Failed wp_state js_error

definition wp_onMessage :: "wp_state \<Rightarrow> shared_mem \<Rightarrow> to_main \<Rightarrow> wp_dispatch" where
  "wp_onMessage wp mem m =
     (case m of
        M_Inited \<Rightarrow>
          (case onInited wp of Inl e \<Rightarrow> WP_Failed (wp\<lparr>wp_status := INITED\<rparr>) e | Inr wp' \<Rightarrow> WP_Done wp')
      | M_Push n \<Rightarrow>
          (case onReceived wp mem n of
             Recv_Ignored \<Rightarrow> WP_Ignored
           | Recv_Failed e \<Rightarrow> WP_Failed wp e
           | Recv_Done wp' \<Rightarrow> WP_Done wp')
      | M_Finish \<Rightarrow> WP_Done (onFinished wp)
      | M_Error e \<Rightarrow> (case onError wp e of (wp', e') \<Rightarrow> WP_Failed wp' e')
      | M_Other s \<Rightarrow> WP_Failed wp UnsupportedMessage)"

text \<open>
  What can happen to the proxy, in any order: a message from the worker (read against the
  shared memory of that moment), or one pass of the body of the \<^verbatim>\<open>push\<close> loop.
\<close>

datatype proxy_event = Ev_Message to_main shared_mem | Ev_Write shared_mem

fun wp_event :: "wp_state \<Rightarrow> proxy_event \<Rightarrow> wp_state" where
  "wp_event wp (Ev_Message m mem) =
     (case wp_onMessage wp mem m of WP_Done wp' \<Rightarrow> wp' | WP_Ignored \<Rightarrow> wp | WP_Failed wp' e \<Rightarrow> wp')"
| "wp_event wp (Ev_Write mem) = (case snd (push_chunk wp mem) of Inl e \<Rightarrow> wp | Inr (wp', mem') \<Rightarrow> wp')"

primrec wp_run :: "wp_state \<Rightarrow> proxy_event list \<Rightarrow> wp_state" where
  "wp_run wp [] = wp"
| "wp_run wp (ev # evs) = wp_run (wp_event wp ev) evs"

text \<open>Every collected output chunk fits the read buffer.\<close>

definition chunks_fit :: "wp_state \<Rightarrow> bool" where
  "chunks_fit wp \<longleftrightarrow> (\<forall>c \<in> set (wp_targets wp). length c \<le> readBufferSize (wp_opts wp))"

text \<open>A proxy in the middle of a transfer of four bytes in chunks of two, with \<^verbatim>\<open>done()\<close>
  registered; used by the witnesses.\<close>

definition demo_proxy :: wp_state where
  "demo_proxy =
     \<lparr>wp_ab = [1, 2, 3, 4], wp_opts = \<lparr>writeBufferSize = 2, readBufferSize = 2\<rparr>,
      wp_targets = [[1, 2]], wp_status = WORKING, wp_offset = 2, wp_progress_cb = False,
      wp_done_cb = True, wp_outcome = Pending, wp_progress = []\<rparr>"

section \<open>Frame lemmas\<close>

text \<open>
  What the handlers leave alone: a pass of the loop body moves the offset by the chunk size
  and nothing else of the proxy; \<^verbatim>\<open>onReceived\<close> and \<^verbatim>\<open>onFinished\<close> never move it.
\<close>

lemma push_chunk_Inr:
  "push_chunk wp mem = (ms, Inr (wp', mem')) \<Longrightarrow>
     wp' = wp\<lparr>wp_offset := wp_offset wp + chunk_size (writeBufferSize (wp_opts wp)) (length (wp_ab wp)) (wp_offset wp)\<rparr>"
  by (auto simp: push_chunk_def Let_def split: sum.splits if_splits)

lemma onReceived_Done:
  "onReceived wp mem sz = Recv_Done wp' \<Longrightarrow>
     wp_offset wp' = wp_offset wp \<and> wp_ab wp' = wp_ab wp \<and> wp_opts wp' = wp_opts wp"
  by (auto simp: onReceived_def Let_def split: sum.splits if_splits)

lemma onFinished_frame [simp]:
  "wp_offset (onFinished wp) = wp_offset wp" "wp_ab (onFinished wp) = wp_ab wp"
  "wp_opts (onFinished wp) = wp_opts wp"
  by (simp_all add: onFinished_def Let_def)

section \<open>The proxy under any sequence of events\<close>

lemma onReceived_Done_fields:
  "onReceived wp mem sz = Recv_Done wp' \<Longrightarrow>
     wp_outcome wp' = wp_outcome wp \<and> wp_opts wp' = wp_opts wp \<and>
     (\<exists>c. wp_targets wp' = wp_targets wp @ [c] \<and> length c \<le> readBufferSize (wp_opts wp))"
  by (auto simp: onReceived_def Let_def dest: ta_view_length split: sum.splits if_splits option.splits)

lemma push_chunk_snd_Inr:
  "snd (push_chunk wp mem) = Inr (wp', mem') \<Longrightarrow>
     wp' = wp\<lparr>wp_offset := wp_offset wp + chunk_size (writeBufferSize (wp_opts wp)) (length (wp_ab wp)) (wp_offset wp)\<rparr>"
  by (cases "push_chunk wp mem") (auto dest: push_chunk_Inr)

text \<open>What one event does to the options, the outcome and the collected chunks.\<close>

lemma wp_event_fields:
  "wp_opts (wp_event wp ev) = wp_opts wp \<and>
   (wp_outcome (wp_event wp ev) = wp_outcome wp \<or>
    wp_outcome (wp_event wp ev) = settle (wp_outcome wp) (Resolved (wp_targets wp)) \<and>
    (\<exists>mem. ev = Ev_Message M_Finish mem)) \<and>
   (\<exists>cs. wp_targets (wp_event wp ev) = wp_targets wp @ cs \<and>
         (\<forall>c \<in> set cs. length c \<le> readBufferSize (wp_opts wp)))"
proof (cases ev)
  case (Ev_Write mem)
  then show ?thesis
    by (cases "snd (push_chunk wp mem)") (auto dest: push_chunk_snd_Inr)
next
  case (Ev_Message m mem)
  then show ?thesis
  proof (cases m)
    case (M_Push n)
    then show ?thesis using Ev_Message
      by (cases "onReceived wp mem n") (auto simp: wp_onMessage_def dest: onReceived_Done_fields)
  qed (auto simp: wp_onMessage_def onInited_def push_start_def onError_def onFinished_def Let_def)
qed

lemma settle_settle: "settle (settle x (Resolved a)) (Resolved b) = settle x (Resolved a)"
  by (simp add: settle_def)

lemma wp_run_fields:
  "wp_opts (wp_run wp evs) = wp_opts wp \<and>
   (wp_outcome (wp_run wp evs) = wp_outcome wp \<or>
    (\<exists>mem. Ev_Message M_Finish mem \<in> set evs) \<and>
    (\<exists>ts. wp_outcome (wp_run wp evs) = settle (wp_outcome wp) (Resolved ts)))"
proof (induction evs arbitrary: wp)
  case Nil
  then show ?case by simp
next
  case (Cons ev evs)
  note step = wp_event_fields [of wp ev]
  note ih = Cons.IH [of "wp_event wp ev"]
  show ?case
    using step ih by (auto simp: settle_settle)
qed

text \<open>
  C31: Every output chunk the proxy collects fits its read buffer, whatever the worker
  posts and in whatever order: \<^verbatim>\<open>onReceived\<close> refuses a larger size before copying.
\<close>

theorem proxy_chunks_fit:
  assumes "chunks_fit wp"
  shows "chunks_fit (wp_run wp evs)"
  using assms
proof (induction evs arbitrary: wp)
  case (Cons ev evs)
  have "chunks_fit (wp_event wp ev)"
    using Cons.prems wp_event_fields [of wp ev] by (auto simp: chunks_fit_def)
  then show ?case using Cons.IH by simp
qed simp

text \<open>
  C32: The proxy never rejects \<^verbatim>\<open>done()\<close>: from a pending promise, every sequence of events
  leaves it pending or resolved, and it is resolved only if a \<^verbatim>\<open>"finish"\<close> message came.
  An \<^verbatim>\<open>"error"\<close> message, an unsupported message and a failing handler all leave it
  pending.
\<close>

theorem proxy_never_rejects:
  assumes "wp_outcome wp = Pending"
  shows "(\<forall>e. wp_outcome (wp_run wp evs) \<noteq> Rejected e) \<and>
         (wp_outcome (wp_run wp evs) \<noteq> Pending \<longrightarrow> (\<exists>mem. Ev_Message M_Finish mem \<in> set evs))"
  using wp_run_fields [of wp evs] assms by (auto simp: settle_def)

section \<open>Witnesses\<close>

theorem proxy_chunks_fit_witness:
  "chunks_fit (wp_run demo_proxy [Ev_Message (M_Push (Some 2)) (\<lambda>_. [3, 4]), Ev_Message (M_Push None) (\<lambda>_. [5, 6, 7])])"
  using proxy_chunks_fit [of demo_proxy "[Ev_Message (M_Push (Some 2)) (\<lambda>_. [3, 4]), Ev_Message (M_Push None) (\<lambda>_. [5, 6, 7])]"]
  by (simp add: demo_proxy_def chunks_fit_def)

theorem proxy_never_rejects_witness:
  "wp_outcome (wp_run demo_proxy [Ev_Message (M_Push (Some 2)) (\<lambda>_. [3, 4]), Ev_Message (M_Error WorkerError) (\<lambda>_. [])]) = Pending"
  using proxy_never_rejects [of demo_proxy "[Ev_Message (M_Push (Some 2)) (\<lambda>_. [3, 4]), Ev_Message (M_Error WorkerError) (\<lambda>_. [])]"]
  by (simp add: demo_proxy_def)

end
