(* ===== verification/Worker.thy ===== *)
theory Worker
  imports Channel Chunking
begin

text \<open>
  The consumer side, class \<^verbatim>\<open>FileTranformingWorker\<close> of src/src/lib.ts (lines 256-381), the
  copy worker that \<^verbatim>\<open>plain.worker.ts\<close> runs: its fields, the \<^verbatim>\<open>"init"\<close> branch of
  \<^verbatim>\<open>onMessage\<close>, the state check of the \<^verbatim>\<open>"push"\<close> branch, and the two halves of one
  pass of its loop, split at the \<^verbatim>\<open>writeCond.wait()\<close> that waits for the proxy's
  acknowledgement. The lock and condition calls are the composition's business.
\<close>

section \<open>State\<close>

record ftw_state =
  ftw_writeBuffer :: "sab_id option"
  ftw_readBuffer :: "sab_id option"
  ftw_writeBufferSize :: nat
  ftw_readBufferSize :: nat
  ftw_status :: status
  ftw_lockSab :: "sab_id option"
  ftw_view :: "sync_view option"
  ftw_fileLength :: nat
  ftw_readOffset :: nat

definition ftw_new :: ftw_state where
  "ftw_new =
     \<lparr>ftw_writeBuffer = None, ftw_readBuffer = None, ftw_writeBufferSize = 0,
      ftw_readBufferSize = 0, ftw_status = INIT, ftw_lockSab = None, ftw_view = None,
      ftw_fileLength = 0, ftw_readOffset = 0\<rparr>"

section \<open>onMessage\<close>

text \<open>
  The \<^verbatim>\<open>"init"\<close> branch: copy the payload's buffers, sizes and length, build the mirrored
  lock view, post \<^verbatim>\<open>["inited"]\<close> and become \<open>INITED\<close>.
\<close>

definition ftw_on_init :: "ftw_state \<Rightarrow> init_payload \<Rightarrow> js_error + (ftw_state \<times> to_main list)" where
  "ftw_on_init w p =
     (case worker_view of
        Inl e \<Rightarrow> Inl e
      | Inr v \<Rightarrow>
          Inr (w\<lparr>ftw_readBuffer := Some (ip_readBuffer p), ftw_writeBuffer := Some (ip_writeBuffer p),
                 ftw_readBufferSize := ip_readBufferSize p, ftw_writeBufferSize := ip_writeBufferSize p,
                 ftw_lockSab := Some (ip_lockSab p), ftw_fileLength := ip_fileLength p,
                 ftw_view := Some v, ftw_status := INITED\<rparr>,
               [M_Inited]))"

text \<open>
  The state check of the \<^verbatim>\<open>"push"\<close> branch; afterwards the branch takes its read lock with
  the blocking \<^verbatim>\<open>lock()\<close> and runs the loop.
\<close>

definition ftw_push_start :: "ftw_state \<Rightarrow> js_error + ftw_state" where
  "ftw_push_start w =
     (if ftw_status w = INITED then Inr (w\<lparr>ftw_status := WORKING\<rparr>)
      else if ftw_status w = WORKING then Inr w
      else Inl UnexpectedState)"

text \<open>
  Dispatch on the message: too short a message and an unknown event throw; \<^verbatim>\<open>"init"\<close>
  runs to completion; \<^verbatim>\<open>"push"\<close> is started (its loop is run by the composition).
\<close>

datatype ftw_dispatch = FTW_Failed js_error | FTW_Inited ftw_state "to_main list" | FTW_Pushing ftw_state

fun ftw_onMessage :: "ftw_state \<Rightarrow> to_worker \<Rightarrow> ftw_dispatch" where
  "ftw_onMessage w W_Short = FTW_Failed IncorrectPayload"
| "ftw_onMessage w (W_Init p) =
     (case ftw_on_init w p of Inl e \<Rightarrow> FTW_Failed e | Inr (w', msgs) \<Rightarrow> FTW_Inited w' msgs)"
| "ftw_onMessage w W_Push =
     (case ftw_push_start w of Inl e \<Rightarrow> FTW_Failed e | Inr w' \<Rightarrow> FTW_Pushing w')"
| "ftw_onMessage w (W_Other s) = FTW_Failed UnsupportedMessage"

section \<open>One pass of the loop\<close>

definition ftw_more :: "ftw_state \<Rightarrow> bool" where
  "ftw_more w \<longleftrightarrow> ftw_readOffset w < ftw_fileLength w"

definition ftw_readLength :: "ftw_state \<Rightarrow> nat" where
  "ftw_readLength w = chunk_size (ftw_readBufferSize w) (ftw_fileLength w) (ftw_readOffset w)"

text \<open>
  First half, holding the read lock and then the write lock: view \<open>readLength\<close> bytes at the
  start of the read buffer, view as many at the start of the write buffer (this throws
  \<open>RangeError\<close> when the write buffer is shorter), copy, and post \<^verbatim>\<open>["push", readLength]\<close>.
  The read view is live, so the bytes copied are those of the buffer at the copy.
\<close>

definition ftw_copy_chunk :: "ftw_state \<Rightarrow> shared_mem \<Rightarrow> js_error + (shared_mem \<times> to_main list)" where
  "ftw_copy_chunk w mem =
     (let n = ftw_readLength w in
      case (ftw_readBuffer w, ftw_writeBuffer w) of
        (Some rb, Some wb) \<Rightarrow>
          (case ta_view (mem rb) 0 n of
             Inl e \<Rightarrow> Inl e
           | Inr readView \<Rightarrow>
               (case ta_view (mem wb) 0 n of
                  Inl e \<Rightarrow> Inl e
                | Inr _ \<Rightarrow> Inr (mem(wb := ta_set_prefix (mem wb) readView), [M_Push (Some n)])))
      | _ \<Rightarrow> Inl RangeError)"

text \<open>
  Second half, after the acknowledgement: (unlock the write lock,) post \<^verbatim>\<open>["finish"]\<close> when
  the chunk was shorter than the read buffer, (notify the read condition,) and advance the
  offset. The flag says whether the pass then waits for the proxy's next chunk, which it
  does exactly when input remains.
\<close>

definition ftw_after_ack :: "ftw_state \<Rightarrow> ftw_state \<times> to_main list \<times> bool" where
  "ftw_after_ack w =
     (let n = ftw_readLength w in
      (w\<lparr>ftw_readOffset := ftw_readOffset w + n\<rparr>,
       (if n < ftw_readBufferSize w then [M_Finish] else []),
       ftw_readOffset w + n < ftw_fileLength w))"

end
