(* ===== verification/Pipeline.thy ===== *)
theory Pipeline
  imports Producer Worker
begin

text \<open>
  One transform with the copy worker (src/src/plain.worker.ts running
  \<^verbatim>\<open>FileTranformingWorker\<close>), composed from the handlers of Producer.thy and Worker.thy in
  the one order the two locks and two conditions of the channel allow. The caller is
  \<^verbatim>\<open>transformFile\<close> of src/src/App.tsx: constructor, \<^verbatim>\<open>initWorker\<close>, \<^verbatim>\<open>onProgress\<close>,
  \<^verbatim>\<open>done\<close>. Then the worker handles \<^verbatim>\<open>"init"\<close>, the proxy handles \<^verbatim>\<open>"inited"\<close> and
  starts \<^verbatim>\<open>push\<close>, and each chunk is one round of the handshake:

  \<^enum> the proxy, holding its write lock, copies the chunk into its write buffer (posting
    \<^verbatim>\<open>"push"\<close> first on the first chunk), notifies and waits on its write condition;
  \<^enum> the worker (started by that \<^verbatim>\<open>"push"\<close>, or woken in its loop) copies the chunk from
    its read buffer into its write buffer and posts \<^verbatim>\<open>["push", n]\<close>;
  \<^enum> the proxy's \<^verbatim>\<open>onReceived(n)\<close> appends the chunk and reports progress;
  \<^enum> the worker posts \<^verbatim>\<open>"finish"\<close> after a short chunk (handled by \<^verbatim>\<open>onFinished\<close>),
    advances its offset and waits for the next chunk when input remains.

  A round can end the run early: an exception of either side (\<open>Fault\<close>), or a side left
  waiting for a notification that never comes (\<open>Stall\<close>). The loop over rounds is a
  \<open>partial_function (option)\<close>: a run that never ends is \<open>None\<close>.
\<close>

section \<open>The composed run\<close>

datatype halt = Fault js_error | Stall

text \<open>
  The state of a run: both objects, the shared buffers, the messages posted each way (in
  order), and how the run stopped early, if it did.
\<close>

record pipe =
  pp_wp :: wp_state
  pp_ftw :: ftw_state
  pp_mem :: shared_mem
  pp_to_worker :: "to_worker list"
  pp_to_main :: "to_main list"
  pp_halt :: "halt option"

text \<open>
  \<^verbatim>\<open>transformFile\<close> up to the first chunk: construct the proxy, register the progress
  callback and the \<^verbatim>\<open>done\<close> resolvers, post \<^verbatim>\<open>"init"\<close>; the worker dispatches it and
  answers \<^verbatim>\<open>"inited"\<close>; the proxy's \<^verbatim>\<open>onInited\<close> starts \<^verbatim>\<open>push\<close>.
\<close>

definition pipe_setup :: "task_opts \<Rightarrow> bytes \<Rightarrow> js_error + pipe" where
  "pipe_setup opts ab =
     (case new_worker_proxy True (Some opts) (Some ab) of
        Inl e \<Rightarrow> Inl e
      | Inr (wp0, mem) \<Rightarrow>
          (let wp1 = register_done (onProgress wp0); msg = initWorker wp1 in
           case ftw_onMessage ftw_new msg of
             FTW_Inited w ms \<Rightarrow>
               (case onInited wp1 of
                  Inl e \<Rightarrow> Inl e
                | Inr wp2 \<Rightarrow>
                    Inr \<lparr>pp_wp = wp2, pp_ftw = w, pp_mem = mem, pp_to_worker = [msg],
                         pp_to_main = ms, pp_halt = None\<rparr>)
           | FTW_Failed e \<Rightarrow> Inl e
           | FTW_Pushing w \<Rightarrow> Inl UnexpectedState))"

text \<open>One round of the handshake, as listed above.\<close>

definition pipe_chunk :: "pipe \<Rightarrow> pipe" where
  "pipe_chunk p =
     (case push_chunk (pp_wp p) (pp_mem p) of
        (wmsgs, Inl e) \<Rightarrow> p\<lparr>pp_to_worker := pp_to_worker p @ wmsgs, pp_halt := Some (Fault e)\<rparr>
      | (wmsgs, Inr (wp1, mem1)) \<Rightarrow>
          (let p1 = p\<lparr>pp_wp := wp1, pp_mem := mem1, pp_to_worker := pp_to_worker p @ wmsgs\<rparr> in
           case (if wmsgs = [] then FTW_Pushing (pp_ftw p) else ftw_onMessage (pp_ftw p) W_Push) of
             FTW_Failed e \<Rightarrow> p1\<lparr>pp_halt := Some (Fault e)\<rparr>
           | FTW_Inited w ms \<Rightarrow> p1\<lparr>pp_halt := Some Stall\<rparr>
           | FTW_Pushing w \<Rightarrow>
               (if \<not> ftw_more w then p1\<lparr>pp_ftw := w, pp_halt := Some Stall\<rparr>
                else case ftw_copy_chunk w mem1 of
                  Inl e \<Rightarrow> p1\<lparr>pp_ftw := w, pp_halt := Some (Fault e)\<rparr>
                | Inr (mem2, ms1) \<Rightarrow>
                    (case onReceived wp1 mem2 (Some (ftw_readLength w)) of
                       Recv_Ignored \<Rightarrow> p1\<lparr>pp_ftw := w, pp_mem := mem2, pp_to_main := pp_to_main p @ ms1,
                                         pp_halt := Some Stall\<rparr>
                     | Recv_Failed e \<Rightarrow> p1\<lparr>pp_ftw := w, pp_mem := mem2, pp_to_main := pp_to_main p @ ms1,
                                          pp_halt := Some (Fault e)\<rparr>
                     | Recv_Done wp2 \<Rightarrow>
                         (case ftw_after_ack w of
                            (w2, ms2, waits) \<Rightarrow>
                              (let wp3 = (if M_Finish \<in> set ms2 then onFinished wp2 else wp2) in
                               p1\<lparr>pp_wp := wp3, pp_ftw := w2, pp_mem := mem2,
                                  pp_to_main := pp_to_main p @ ms1 @ ms2,
                                  pp_halt := (if waits = push_more wp3 then None else Some Stall)\<rparr>))))))"

text \<open>The \<^verbatim>\<open>while\<close> loop of \<^verbatim>\<open>push\<close>, driving one round per pass until the run stops.\<close>

partial_function (option) pipe_loop :: "pipe \<Rightarrow> pipe option" where
  "pipe_loop p = (if pp_halt p = None \<and> push_more (pp_wp p) then pipe_loop (pipe_chunk p) else Some p)"

declare pipe_loop.simps [code]

definition pipe_run :: "task_opts \<Rightarrow> bytes \<Rightarrow> (js_error + pipe) option" where
  "pipe_run opts ab =
     (case pipe_setup opts ab of Inl e \<Rightarrow> Some (Inl e) | Inr p \<Rightarrow> map_option Inr (pipe_loop p))"

section \<open>Reference values of a run\<close>

text \<open>
  Chunk \<open>i\<close> of the input for a chunk size \<open>c\<close>, and the progress the callback gets
  after it; the loop invariant after \<open>k\<close> rounds; what a run that completes every round
  ends with; and the state in which a zero write size makes no progress.
\<close>

definition chunk_at :: "bytes \<Rightarrow> nat \<Rightarrow> nat \<Rightarrow> bytes" where
  "chunk_at ab c i = take (min c (length ab - i * c)) (drop (i * c) ab)"

definition progress_at :: "nat \<Rightarrow> nat \<Rightarrow> nat \<Rightarrow> real" where
  "progress_at len c i = real (min len (Suc i * c)) / real len * 100"

definition proxy_ready :: "bytes \<Rightarrow> task_conf \<Rightarrow> nat \<Rightarrow> wp_state \<Rightarrow> shared_mem \<Rightarrow> bool" where
  "proxy_ready ab c k wp mem \<longleftrightarrow>
     wp_ab wp = ab \<and> wp_opts wp = c \<and> wp_offset wp = k * writeBufferSize c \<and> wp_status wp = WORKING \<and>
     wp_progress_cb wp \<and> wp_done_cb wp \<and> wp_outcome wp = Pending \<and>
     length (mem ProxyWriteBuf) = writeBufferSize c \<and> length (mem ProxyReadBuf) = readBufferSize c"

definition worker_ready :: "bytes \<Rightarrow> task_conf \<Rightarrow> nat \<Rightarrow> ftw_state \<Rightarrow> bool" where
  "worker_ready ab c k w \<longleftrightarrow>
     ftw_readBuffer w = Some ProxyWriteBuf \<and> ftw_writeBuffer w = Some ProxyReadBuf \<and>
     ftw_readBufferSize w = writeBufferSize c \<and> ftw_writeBufferSize w = readBufferSize c \<and>
     ftw_fileLength w = length ab \<and> ftw_readOffset w = k * writeBufferSize c \<and>
     ftw_status w = (if k = 0 then INITED else WORKING)"

definition pipe_inv :: "bytes \<Rightarrow> task_conf \<Rightarrow> nat \<Rightarrow> pipe \<Rightarrow> bool" where
  "pipe_inv ab c k p \<longleftrightarrow>
     proxy_ready ab c k (pp_wp p) (pp_mem p) \<and> worker_ready ab c k (pp_ftw p) \<and>
     wp_targets (pp_wp p) = map (chunk_at ab (writeBufferSize c)) [0..<k] \<and>
     wp_progress (pp_wp p) = map (progress_at (length ab) (writeBufferSize c)) [0..<k] \<and>
     pp_halt p = None \<and> M_Finish \<notin> set (pp_to_main p)"

definition pipe_final :: "bytes \<Rightarrow> task_conf \<Rightarrow> pipe \<Rightarrow> bool" where
  "pipe_final ab c p \<longleftrightarrow>
     pp_halt p = None \<and> \<not> push_more (pp_wp p) \<and>
     wp_offset (pp_wp p) = length ab \<and> ftw_readOffset (pp_ftw p) = length ab \<and>
     wp_targets (pp_wp p) =
       map (chunk_at ab (writeBufferSize c)) [0..<nchunks (writeBufferSize c) (length ab)] \<and>
     wp_progress (pp_wp p) =
       map (progress_at (length ab) (writeBufferSize c))
         [0..<nchunks (writeBufferSize c) (length ab)]
       @ (if length ab mod writeBufferSize c = 0 then [] else [100]) \<and>
     wp_outcome (pp_wp p) =
       (if length ab mod writeBufferSize c = 0 then Pending else Resolved (wp_targets (pp_wp p))) \<and>
     (M_Finish \<in> set (pp_to_main p) \<longleftrightarrow> length ab mod writeBufferSize c \<noteq> 0)"

definition zero_inv :: "pipe \<Rightarrow> bool" where
  "zero_inv p \<longleftrightarrow>
     pp_halt p = None \<and> wp_offset (pp_wp p) = 0 \<and> 0 < length (wp_ab (pp_wp p)) \<and>
     writeBufferSize (wp_opts (pp_wp p)) = 0 \<and> wp_status (pp_wp p) = WORKING \<and>
     ftw_readBuffer (pp_ftw p) = Some ProxyWriteBuf \<and> ftw_writeBuffer (pp_ftw p) = Some ProxyReadBuf \<and>
     ftw_readBufferSize (pp_ftw p) = 0 \<and> ftw_fileLength (pp_ftw p) = length (wp_ab (pp_wp p)) \<and>
     ftw_readOffset (pp_ftw p) = 0 \<and> ftw_status (pp_ftw p) \<in> {INITED, WORKING}"

section \<open>One round under the loop invariant\<close>

lemma round_front:
  assumes pr: "proxy_ready ab c k wp mem" and wr: "worker_ready ab c k w" and c: "0 < writeBufferSize c"
    and k: "k * writeBufferSize c < length ab"
  defines "C \<equiv> writeBufferSize c" and "L \<equiv> length ab"
  defines "n \<equiv> min C (L - k * C)"
  defines "v \<equiv> chunk_at ab C k"
  defines "w1 \<equiv> (if k = 0 then w\<lparr>ftw_status := WORKING\<rparr> else w)"
  shows "push_chunk wp mem = (if k = 0 then [W_Push] else [],
           Inr (wp\<lparr>wp_offset := k * C + n\<rparr>, mem(ProxyWriteBuf := ta_set_prefix (mem ProxyWriteBuf) v)))"
    and "ftw_push_start w = Inr w1" and "k \<noteq> 0 \<Longrightarrow> w1 = w"
    and "ftw_more w1" and "ftw_readLength w1 = n" and "length v = n" and "n \<le> C"
    and "ftw_readOffset w1 = k * C" and "ftw_fileLength w1 = L" and "ftw_readBufferSize w1 = C"
    and "ftw_writeBufferSize w1 = readBufferSize c"
    and "ftw_readBuffer w1 = Some ProxyWriteBuf" and "ftw_writeBuffer w1 = Some ProxyReadBuf"
proof -
  have kL: "k * C < L" using k by (simp add: C_def L_def)
  show nC: "n \<le> C" by (simp add: n_def)
  have fits: "k * C + n \<le> L" using kL unfolding n_def by linarith
  show vlen: "length v = n" using fits by (simp add: v_def chunk_at_def n_def L_def)
  have cs: "chunk_size C L (k * C) = n" using chunk_size_at [OF _ kL] c by (simp add: n_def C_def)
  have k0: "k * C = 0 \<longleftrightarrow> k = 0" using c by (simp add: C_def)
  show "push_chunk wp mem = (if k = 0 then [W_Push] else [],
           Inr (wp\<lparr>wp_offset := k * C + n\<rparr>, mem(ProxyWriteBuf := ta_set_prefix (mem ProxyWriteBuf) v)))"
    using pr fits nC cs k0
    by (simp add: push_chunk_def Let_def proxy_ready_def ta_view_ok v_def chunk_at_def n_def C_def L_def)
  show "ftw_push_start w = Inr w1" using wr by (simp add: w1_def ftw_push_start_def worker_ready_def)
  show "k \<noteq> 0 \<Longrightarrow> w1 = w" by (simp add: w1_def)
  show w1: "ftw_readOffset w1 = k * C" "ftw_readBuffer w1 = Some ProxyWriteBuf"
    "ftw_writeBuffer w1 = Some ProxyReadBuf" "ftw_fileLength w1 = L" "ftw_readBufferSize w1 = C"
    "ftw_writeBufferSize w1 = readBufferSize c"
    using wr by (simp_all add: w1_def worker_ready_def C_def L_def)
  show "ftw_more w1" using w1 kL by (simp add: ftw_more_def)
  show "ftw_readLength w1 = n" using w1 cs by (simp add: ftw_readLength_def)
qed

lemma pipe_chunk_front:
  assumes inv: "pipe_inv ab c k p" and c: "0 < writeBufferSize c"
    and k: "k * writeBufferSize c < length ab"
  defines "C \<equiv> writeBufferSize c" and "L \<equiv> length ab"
  defines "n \<equiv> min C (L - k * C)"
  defines "v \<equiv> chunk_at ab C k"
  defines "w1 \<equiv> (if k = 0 then (pp_ftw p)\<lparr>ftw_status := WORKING\<rparr> else pp_ftw p)"
  shows "push_chunk (pp_wp p) (pp_mem p) = (if k = 0 then [W_Push] else [],
           Inr ((pp_wp p)\<lparr>wp_offset := k * C + n\<rparr>,
                (pp_mem p)(ProxyWriteBuf := ta_set_prefix (pp_mem p ProxyWriteBuf) v)))"
    and "(if (if k = 0 then [W_Push] else []) = [] then FTW_Pushing (pp_ftw p)
          else ftw_onMessage (pp_ftw p) W_Push) = FTW_Pushing w1"
    and "ftw_more w1" and "ftw_readLength w1 = n" and "length v = n" and "n \<le> C"
    and "ftw_readOffset w1 = k * C" and "ftw_readBuffer w1 = Some ProxyWriteBuf"
    and "ftw_writeBuffer w1 = Some ProxyReadBuf"
proof -
  have pr: "proxy_ready ab c k (pp_wp p) (pp_mem p)" and wr: "worker_ready ab c k (pp_ftw p)"
    using inv by (simp_all add: pipe_inv_def)
  note front = round_front [OF pr wr c k, folded C_def L_def, folded n_def, folded v_def w1_def]
  show "push_chunk (pp_wp p) (pp_mem p) = (if k = 0 then [W_Push] else [],
           Inr ((pp_wp p)\<lparr>wp_offset := k * C + n\<rparr>,
                (pp_mem p)(ProxyWriteBuf := ta_set_prefix (pp_mem p ProxyWriteBuf) v)))"
    by (rule front(1))
  show "(if (if k = 0 then [W_Push] else []) = [] then FTW_Pushing (pp_ftw p)
          else ftw_onMessage (pp_ftw p) W_Push) = FTW_Pushing w1"
    using front(2,3) by (cases "k = 0") simp_all
  show "ftw_more w1" "ftw_readLength w1 = n" "length v = n" "n \<le> C" "ftw_readOffset w1 = k * C"
    "ftw_readBuffer w1 = Some ProxyWriteBuf" "ftw_writeBuffer w1 = Some ProxyReadBuf"
    using front by simp_all
qed

lemma pipe_chunk_eq:
  assumes inv: "pipe_inv ab c k p"
    and c: "0 < writeBufferSize c" "writeBufferSize c \<le> readBufferSize c"
    and k: "k * writeBufferSize c < length ab"
  defines "C \<equiv> writeBufferSize c" and "L \<equiv> length ab"
  defines "n \<equiv> min C (L - k * C)"
  defines "v \<equiv> chunk_at ab C k"
  defines "wp2 \<equiv> (pp_wp p)\<lparr>wp_offset := k * C + n, wp_targets := wp_targets (pp_wp p) @ [v],
                      wp_progress := wp_progress (pp_wp p) @ [progress_at L C k]\<rparr>"
  defines "w1 \<equiv> (if k = 0 then (pp_ftw p)\<lparr>ftw_status := WORKING\<rparr> else pp_ftw p)"
  shows "pipe_chunk p =
     p\<lparr>pp_wp := (if n < C then onFinished wp2 else wp2),
       pp_ftw := w1\<lparr>ftw_readOffset := k * C + n\<rparr>,
       pp_mem := (pp_mem p)(ProxyWriteBuf := ta_set_prefix (pp_mem p ProxyWriteBuf) v,
                            ProxyReadBuf := ta_set_prefix (pp_mem p ProxyReadBuf) v),
       pp_to_worker := pp_to_worker p @ (if k = 0 then [W_Push] else []),
       pp_to_main := pp_to_main p @ [M_Push (Some n)] @ (if n < C then [M_Finish] else [])\<rparr>"
proof -
  let ?mem1 = "(pp_mem p)(ProxyWriteBuf := ta_set_prefix (pp_mem p ProxyWriteBuf) v)"
  let ?wp1 = "(pp_wp p)\<lparr>wp_offset := k * C + n\<rparr>"
  note front = pipe_chunk_front [OF inv c(1) k, folded C_def L_def, folded n_def, folded v_def w1_def]
  have kL: "k * C < L" using k by (simp add: C_def L_def)
  have pa: "real (k * C + n) / real L * 100 = progress_at L C k"
    unfolding progress_at_def n_def chunk_step_min [OF kL] ..
  have copy: "ftw_copy_chunk w1 ?mem1 =
      Inr (?mem1(ProxyReadBuf := ta_set_prefix (pp_mem p ProxyReadBuf) v), [M_Push (Some n)])"
    using inv front(4-9) c(2)
    by (simp add: ftw_copy_chunk_def ta_view_set_prefix ta_view_ok pipe_inv_def proxy_ready_def worker_ready_def C_def)
  have recv: "onReceived ?wp1 (?mem1(ProxyReadBuf := ta_set_prefix (pp_mem p ProxyReadBuf) v)) (Some n)
      = Recv_Done wp2"
    using inv front(5,6) c(2) pa
    by (simp add: onReceived_def ta_view_set_prefix pipe_inv_def proxy_ready_def worker_ready_def wp2_def C_def L_def)
  have ack: "ftw_after_ack w1 = (w1\<lparr>ftw_readOffset := k * C + n\<rparr>,
      (if n < C then [M_Finish] else []), k * C + n < L)"
    using inv front(4,7) by (simp add: ftw_after_ack_def w1_def pipe_inv_def proxy_ready_def worker_ready_def C_def L_def)
  have pm: "push_more (if n < C then onFinished wp2 else wp2) \<longleftrightarrow> k * C + n < L"
    using inv by (simp add: push_more_def onFinished_def Let_def wp2_def pipe_inv_def proxy_ready_def worker_ready_def L_def)
  show ?thesis
    unfolding pipe_chunk_def front(1) prod.case sum.case Let_def
    using front(2,3,4) copy recv ack pm inv by (simp add: pipe_inv_def proxy_ready_def worker_ready_def)
qed

lemma pipe_chunk_range:
  assumes inv: "pipe_inv ab c k p" and c: "0 < writeBufferSize c"
    and k: "k * writeBufferSize c < length ab"
    and r: "readBufferSize c < min (writeBufferSize c) (length ab - k * writeBufferSize c)"
  shows "pp_halt (pipe_chunk p) = Some (Fault RangeError) \<and> wp_outcome (pp_wp (pipe_chunk p)) = Pending"
proof -
  note front = pipe_chunk_front [OF inv c k]
  have "ta_view (pp_mem p ProxyReadBuf) 0 (min (writeBufferSize c) (length ab - k * writeBufferSize c))
      = Inl RangeError"
    using inv r by (intro ta_view_range) (simp add: pipe_inv_def proxy_ready_def worker_ready_def not_le)
  then have copy: "ftw_copy_chunk (if k = 0 then (pp_ftw p)\<lparr>ftw_status := WORKING\<rparr> else pp_ftw p)
      ((pp_mem p)(ProxyWriteBuf := ta_set_prefix (pp_mem p ProxyWriteBuf) (chunk_at ab (writeBufferSize c) k)))
      = Inl RangeError"
    using inv front(4-9) by (simp add: ftw_copy_chunk_def Let_def ta_view_set_prefix pipe_inv_def proxy_ready_def worker_ready_def)
  show ?thesis
    unfolding pipe_chunk_def front(1) prod.case sum.case Let_def
    using front(2,3) copy inv by (simp add: pipe_inv_def proxy_ready_def worker_ready_def)
qed

lemma pipe_inv_step:
  assumes inv: "pipe_inv ab c k p"
    and c: "0 < writeBufferSize c" "writeBufferSize c \<le> readBufferSize c"
    and k: "Suc k * writeBufferSize c < length ab"
  shows "pipe_inv ab c (Suc k) (pipe_chunk p)"
proof -
  have kL: "k * writeBufferSize c < length ab" using k by simp
  have n: "min (writeBufferSize c) (length ab - k * writeBufferSize c) = writeBufferSize c"
    using k by simp
  have vl: "length (chunk_at ab (writeBufferSize c) k) = writeBufferSize c"
    using k by (simp add: chunk_at_def)
  have nlt: "\<not> writeBufferSize c < writeBufferSize c" by simp
  show ?thesis
    unfolding pipe_chunk_eq [OF inv c kL] n Let_def if_not_P [OF nlt]
    using inv vl c(2) by (simp add: pipe_inv_def proxy_ready_def worker_ready_def)
qed

lemma pipe_chunk_last:
  assumes inv: "pipe_inv ab c k p"
    and c: "0 < writeBufferSize c" "writeBufferSize c \<le> readBufferSize c"
    and k: "k * writeBufferSize c < length ab" "length ab \<le> Suc k * writeBufferSize c"
  shows "pipe_final ab c (pipe_chunk p)"
proof -
  let ?C = "writeBufferSize c" and ?L = "length ab"
  have nk: "nchunks ?C ?L = Suc k"
    using nchunks_less_iff [OF c(1), of k ?L] nchunks_less_iff [OF c(1), of "Suc k" ?L] k by simp
  have L0: "0 < ?L" using k(1) by linarith
  have last: "min ?C (?L - k * ?C) = (if ?L mod ?C = 0 then ?C else ?L mod ?C)"
    using plan_of_last_size [OF c(1) L0] nk by simp
  have lt: "min ?C (?L - k * ?C) < ?C \<longleftrightarrow> ?L mod ?C \<noteq> 0"
    using last c(1) by (simp add: mod_less_divisor)
  have off: "k * ?C + min ?C (?L - k * ?C) = ?L" using k by simp
  show ?thesis
    using inv lt off nk
    by (simp add: pipe_chunk_eq [OF inv c k(1)] pipe_inv_def proxy_ready_def worker_ready_def pipe_final_def onFinished_def Let_def
        settle_def push_more_def)
qed

lemma pipe_loop_closed:
  assumes c: "0 < writeBufferSize c" "writeBufferSize c \<le> readBufferSize c"
  shows "pipe_inv ab c k p \<Longrightarrow> k * writeBufferSize c < length ab \<Longrightarrow>
           \<exists>q. pipe_loop p = Some q \<and> pipe_final ab c q"
proof (induction "nchunks (writeBufferSize c) (length ab) - k" arbitrary: k p rule: less_induct)
  case less
  have go: "pipe_loop p = pipe_loop (pipe_chunk p)"
    using less.prems by (simp add: pipe_loop.simps [of p] pipe_inv_def proxy_ready_def worker_ready_def push_more_def)
  show ?case
  proof (cases "Suc k * writeBufferSize c < length ab")
    case True
    have "nchunks (writeBufferSize c) (length ab) - Suc k < nchunks (writeBufferSize c) (length ab) - k"
      using less.prems(2) nchunks_less_iff [OF c(1)] by (simp add: diff_less_mono2)
    then show ?thesis
      using less.hyps [OF _ pipe_inv_step [OF less.prems(1) c True] True] go by simp
  next
    case False
    have fin: "pipe_final ab c (pipe_chunk p)"
      using pipe_chunk_last [OF less.prems(1) c less.prems(2)] False by simp
    then have "pipe_loop (pipe_chunk p) = Some (pipe_chunk p)"
      by (simp add: pipe_loop.simps [of "pipe_chunk p"] pipe_final_def)
    then show ?thesis using go fin by auto
  qed
qed

section \<open>Set-up, progress values, termination\<close>

lemma progress_at_mono: "i \<le> j \<Longrightarrow> progress_at len c i \<le> progress_at len c j"
proof -
  assume "i \<le> j"
  then have "Suc i * c \<le> Suc j * c" by (intro mult_le_mono1) simp
  then have "min len (Suc i * c) \<le> min len (Suc j * c)" by (rule min.mono [OF order_refl])
  then have "real (min len (Suc i * c)) \<le> real (min len (Suc j * c))" by (rule of_nat_mono)
  then show ?thesis unfolding progress_at_def by (intro mult_right_mono divide_right_mono) simp_all
qed

lemma progress_at_bounds: "0 < len \<Longrightarrow> 0 < c \<Longrightarrow> 0 < progress_at len c i \<and> progress_at len c i \<le> 100"
proof -
  assume l: "0 < len" and c: "0 < c"
  have "0 < min len (Suc i * c)" using l c by simp
  moreover have "real (min len (Suc i * c)) \<le> real len" by simp
  ultimately show ?thesis using l unfolding progress_at_def by (simp add: pos_divide_le_eq)
qed

lemma pipe_setup_inv:
  "\<exists>p. pipe_setup opts ab = Inr p \<and> pipe_inv ab (assign_opts defaultTaskOpts opts) 0 p \<and>
       pp_to_worker p = [initWorker (pp_wp p)]"
  by (simp add: pipe_setup_def new_worker_proxy_def proxy_view_eq worker_view_eq ftw_on_init_def
      onInited_def push_start_def register_done_def onProgress_def initWorker_def ftw_new_def
      pipe_inv_def proxy_ready_def worker_ready_def Let_def)

lemma concat_chunk_at:
  "0 < c \<Longrightarrow> concat (map (chunk_at ab c) [0..<nchunks c (length ab)]) = ab"
  using plan_of_concat [of c ab "length ab"] unfolding chunk_at_def [abs_def]
  by (simp add: plan_of_def comp_def)

lemma pipe_run_final:
  assumes c: "0 < writeBufferSize (assign_opts defaultTaskOpts opts)"
    "writeBufferSize (assign_opts defaultTaskOpts opts) \<le> readBufferSize (assign_opts defaultTaskOpts opts)"
    and L: "0 < length ab"
  shows "\<exists>p. pipe_run opts ab = Some (Inr p) \<and> pipe_final ab (assign_opts defaultTaskOpts opts) p"
proof -
  obtain p0 where s: "pipe_setup opts ab = Inr p0" and inv: "pipe_inv ab (assign_opts defaultTaskOpts opts) 0 p0"
    using pipe_setup_inv by blast
  obtain q where "pipe_loop p0 = Some q" "pipe_final ab (assign_opts defaultTaskOpts opts) q"
    using pipe_loop_closed [OF c inv] L by auto
  then show ?thesis using s by (simp add: pipe_run_def)
qed

lemma pipe_chunk_advance:
  assumes "pp_halt (pipe_chunk p) = None"
  shows "wp_ab (pp_wp (pipe_chunk p)) = wp_ab (pp_wp p) \<and> wp_opts (pp_wp (pipe_chunk p)) = wp_opts (pp_wp p) \<and>
         wp_offset (pp_wp (pipe_chunk p)) = wp_offset (pp_wp p) +
           chunk_size (writeBufferSize (wp_opts (pp_wp p))) (length (wp_ab (pp_wp p))) (wp_offset (pp_wp p))"
  using assms unfolding pipe_chunk_def Let_def
  by (auto split: prod.split_asm sum.split_asm ftw_dispatch.split_asm recv_result.split_asm if_split_asm
      dest!: push_chunk_Inr onReceived_Done)

lemma pipe_loop_terminates:
  "0 < writeBufferSize (wp_opts (pp_wp p)) \<Longrightarrow> writeBufferSize (wp_opts (pp_wp p)) dvd wp_offset (pp_wp p) \<Longrightarrow>
     \<exists>q. pipe_loop p = Some q"
proof (induction "length (wp_ab (pp_wp p)) - wp_offset (pp_wp p)" arbitrary: p rule: less_induct)
  case less
  show ?case
  proof (cases "pp_halt p = None \<and> push_more (pp_wp p)")
    case False
    then show ?thesis by (auto simp: pipe_loop.simps [of p])
  next
    case True
    then have go: "pipe_loop p = pipe_loop (pipe_chunk p)" by (simp add: pipe_loop.simps [of p])
    show ?thesis
    proof (cases "pp_halt (pipe_chunk p) = None \<and> push_more (pp_wp (pipe_chunk p))")
      case False
      then show ?thesis using go by (auto simp: pipe_loop.simps [of "pipe_chunk p"])
    next
      case more: True
      let ?c = "writeBufferSize (wp_opts (pp_wp p))" and ?L = "length (wp_ab (pp_wp p))"
      obtain m where m: "wp_offset (pp_wp p) = m * ?c" using less.prems(2) by (metis dvdE mult.commute)
      have lt: "m * ?c < ?L" using True m by (simp add: push_more_def)
      note adv = pipe_chunk_advance [OF more [THEN conjunct1]]
      have n: "chunk_size ?c ?L (wp_offset (pp_wp p)) = min ?c (?L - m * ?c)"
        using chunk_size_at [OF less.prems(1) lt] m by simp
      have "m * ?c + min ?c (?L - m * ?c) < ?L" using more adv n m by (simp add: push_more_def)
      then have full: "min ?c (?L - m * ?c) = ?c" by linarith
      have off': "wp_offset (pp_wp (pipe_chunk p)) = Suc m * ?c" using adv n m full by simp
      show ?thesis
      proof -
        have "\<exists>q. pipe_loop (pipe_chunk p) = Some q"
        proof (rule less.hyps)
          show "length (wp_ab (pp_wp (pipe_chunk p))) - wp_offset (pp_wp (pipe_chunk p))
                < length (wp_ab (pp_wp p)) - wp_offset (pp_wp p)"
            using adv off' m lt less.prems(1) by simp
          show "0 < writeBufferSize (wp_opts (pp_wp (pipe_chunk p)))" using adv less.prems(1) by simp
          have "writeBufferSize (wp_opts (pp_wp p)) dvd Suc m * writeBufferSize (wp_opts (pp_wp p))" by simp
          then show "writeBufferSize (wp_opts (pp_wp (pipe_chunk p))) dvd wp_offset (pp_wp (pipe_chunk p))"
            using adv off' by (simp only:)
        qed
        then show ?thesis using go by simp
      qed
    qed
  qed
qed

lemma zero_inv_chunk: "zero_inv p \<Longrightarrow> zero_inv (pipe_chunk p)"
  by (auto simp: zero_inv_def pipe_chunk_def push_chunk_def chunk_size_def ta_view_def ftw_push_start_def
      ftw_more_def ftw_copy_chunk_def ftw_readLength_def onReceived_def ftw_after_ack_def push_more_def Let_def)

lemma pipe_loop_zero_stuck:
  assumes ret: "pipe_loop p = Some r"
  shows "zero_inv p \<longrightarrow> False"
proof (rule pipe_loop.raw_induct [where P = "\<lambda>p r. zero_inv p \<longrightarrow> False", OF _ ret])
  fix f :: "pipe \<Rightarrow> pipe option" and p r
  assume ih: "\<And>p r. f p = Some r \<Longrightarrow> zero_inv p \<longrightarrow> False"
    and step: "(if pp_halt p = None \<and> push_more (pp_wp p) then f (pipe_chunk p) else Some p) = Some r"
  show "zero_inv p \<longrightarrow> False"
  proof
    assume z: "zero_inv p"
    then have "pp_halt p = None \<and> push_more (pp_wp p)" by (simp add: zero_inv_def push_more_def)
    then have "f (pipe_chunk p) = Some r" using step by simp
    then show False using ih zero_inv_chunk [OF z] by blast
  qed
qed

section \<open>Properties of a run\<close>

text \<open>
  C4: End-to-end round trip. With a write buffer no larger than the read buffer and an input
  whose length is not a multiple of the write size, the run ends without fault, the done()
  promise is resolved with as many chunks as the chunk plan has, their concatenation is the
  input, and the last progress value reported is 100.
\<close>

theorem pipeline_roundtrip:
  assumes c: "0 < writeBufferSize (assign_opts defaultTaskOpts opts)"
    "writeBufferSize (assign_opts defaultTaskOpts opts) \<le> readBufferSize (assign_opts defaultTaskOpts opts)"
    and L: "length ab mod writeBufferSize (assign_opts defaultTaskOpts opts) \<noteq> 0"
  shows "\<exists>p cs. pipe_run opts ab = Some (Inr p) \<and> pp_halt p = None \<and>
           wp_outcome (pp_wp p) = Resolved cs \<and> concat cs = ab \<and>
           length cs = nchunks (writeBufferSize (assign_opts defaultTaskOpts opts)) (length ab) \<and>
           last (wp_progress (pp_wp p)) = 100"
proof -
  have "0 < length ab" using L by (cases ab) auto
  then obtain p where "pipe_run opts ab = Some (Inr p)" "pipe_final ab (assign_opts defaultTaskOpts opts) p"
    using pipe_run_final [OF c] by blast
  then show ?thesis using L concat_chunk_at [OF c(1)] by (simp add: pipe_final_def)
qed

text \<open>
  C5: Exact multiple never finishes. When the input length is a positive multiple of the
  write size, every byte is copied back, but the worker never posts finish, so the done()
  promise stays pending although the producer loop has ended.
\<close>

theorem pipeline_exact_multiple_pending:
  assumes c: "0 < writeBufferSize (assign_opts defaultTaskOpts opts)"
    "writeBufferSize (assign_opts defaultTaskOpts opts) \<le> readBufferSize (assign_opts defaultTaskOpts opts)"
    and L: "0 < length ab" "length ab mod writeBufferSize (assign_opts defaultTaskOpts opts) = 0"
  shows "\<exists>p. pipe_run opts ab = Some (Inr p) \<and> pp_halt p = None \<and> \<not> push_more (pp_wp p) \<and>
           concat (wp_targets (pp_wp p)) = ab \<and> M_Finish \<notin> set (pp_to_main p) \<and>
           wp_outcome (pp_wp p) = Pending"
proof -
  obtain p where "pipe_run opts ab = Some (Inr p)" "pipe_final ab (assign_opts defaultTaskOpts opts) p"
    using pipe_run_final [OF c L(1)] by blast
  then show ?thesis using L concat_chunk_at [OF c(1)] by (simp add: pipe_final_def)
qed

text \<open>The producer loop returns (with a result, a fault or a stall) exactly when the write
  size is positive or the input is empty.\<close>

lemma pipe_run_defined:
  "(\<exists>r. pipe_run opts ab = Some r) \<longleftrightarrow> 0 < writeBufferSize (assign_opts defaultTaskOpts opts) \<or> ab = []"
proof -
  obtain p where s: "pipe_setup opts ab = Inr p" and inv: "pipe_inv ab (assign_opts defaultTaskOpts opts) 0 p"
    using pipe_setup_inv by blast
  show ?thesis
  proof (cases "0 < writeBufferSize (assign_opts defaultTaskOpts opts) \<or> ab = []")
    case True
    have "\<exists>q. pipe_loop p = Some q"
    proof (cases "ab = []")
      case True
      then show ?thesis using inv by (simp add: pipe_loop.simps [of p] pipe_inv_def proxy_ready_def worker_ready_def push_more_def)
    next
      case False
      then show ?thesis
        using \<open>0 < writeBufferSize (assign_opts defaultTaskOpts opts) \<or> ab = []\<close> inv
        by (intro pipe_loop_terminates) (simp_all add: pipe_inv_def proxy_ready_def worker_ready_def)
    qed
    then show ?thesis using s True by (auto simp: pipe_run_def)
  next
    case False
    then have "zero_inv p" using inv by (simp add: zero_inv_def pipe_inv_def proxy_ready_def worker_ready_def)
    then have "pipe_loop p = None" using pipe_loop_zero_stuck [of p] by (cases "pipe_loop p") auto
    then show ?thesis using s False by (simp add: pipe_run_def)
  qed
qed


text \<open>
  C7: Write buffer larger than read buffer. When the read size is smaller than the write size
  and than the input, the worker throws RangeError on the first chunk and the done() promise
  stays pending.
\<close>

theorem pipeline_write_exceeds_read:
  assumes r: "readBufferSize (assign_opts defaultTaskOpts opts) < writeBufferSize (assign_opts defaultTaskOpts opts)"
    "readBufferSize (assign_opts defaultTaskOpts opts) < length ab"
  shows "\<exists>p. pipe_run opts ab = Some (Inr p) \<and> pp_halt p = Some (Fault RangeError) \<and>
           wp_outcome (pp_wp p) = Pending"
proof -
  obtain p where s: "pipe_setup opts ab = Inr p" and inv: "pipe_inv ab (assign_opts defaultTaskOpts opts) 0 p"
    using pipe_setup_inv by blast
  have c: "0 < writeBufferSize (assign_opts defaultTaskOpts opts)" using r(1) by simp
  have L: "0 * writeBufferSize (assign_opts defaultTaskOpts opts) < length ab" using r(2) by linarith
  have f: "pp_halt (pipe_chunk p) = Some (Fault RangeError) \<and> wp_outcome (pp_wp (pipe_chunk p)) = Pending"
    using pipe_chunk_range [OF inv c L] r by simp
  then have "pipe_loop p = Some (pipe_chunk p)"
    using inv L by (simp add: pipe_loop.simps [of p] pipe_loop.simps [of "pipe_chunk p"] pipe_inv_def proxy_ready_def worker_ready_def push_more_def)
  then show ?thesis using s f by (simp add: pipe_run_def)
qed

text \<open>
  C8: Empty input. For an empty input the worker is never sent push, finish is never posted,
  and the done() promise stays pending.
\<close>

theorem pipeline_empty_input:
  "\<exists>p. pipe_run opts [] = Some (Inr p) \<and> pp_halt p = None \<and> W_Push \<notin> set (pp_to_worker p) \<and>
       M_Finish \<notin> set (pp_to_main p) \<and> wp_outcome (pp_wp p) = Pending"
proof -
  obtain p where s: "pipe_setup opts [] = Inr p" "pipe_inv [] (assign_opts defaultTaskOpts opts) 0 p"
    "pp_to_worker p = [initWorker (pp_wp p)]"
    using pipe_setup_inv by blast
  then have "pipe_loop p = Some p" by (simp add: pipe_loop.simps [of p] pipe_inv_def proxy_ready_def worker_ready_def push_more_def)
  then show ?thesis using s by (simp add: pipe_run_def pipe_inv_def proxy_ready_def worker_ready_def initWorker_def)
qed

text \<open>
  C9: Progress reports. For a positive write size no larger than the read size and a nonempty
  input, the progress callback gets at least one value per chunk, in nondecreasing order,
  each in (0, 100].
\<close>

theorem pipeline_progress_bounded:
  assumes c: "0 < writeBufferSize (assign_opts defaultTaskOpts opts)"
    "writeBufferSize (assign_opts defaultTaskOpts opts) \<le> readBufferSize (assign_opts defaultTaskOpts opts)"
    and L: "0 < length ab"
  shows "\<exists>p. pipe_run opts ab = Some (Inr p) \<and> sorted (wp_progress (pp_wp p)) \<and>
           (\<forall>x \<in> set (wp_progress (pp_wp p)). 0 < x \<and> x \<le> 100) \<and>
           nchunks (writeBufferSize (assign_opts defaultTaskOpts opts)) (length ab) \<le> length (wp_progress (pp_wp p))"
proof -
  let ?c = "assign_opts defaultTaskOpts opts"
  obtain p where run: "pipe_run opts ab = Some (Inr p)" and fin: "pipe_final ab ?c p"
    using pipe_run_final [OF c L] by blast
  let ?xs = "map (progress_at (length ab) (writeBufferSize ?c)) [0..<nchunks (writeBufferSize ?c) (length ab)]"
  have b: "\<forall>x \<in> set ?xs. 0 < x \<and> x \<le> 100" using progress_at_bounds [OF L c(1)] by simp
  have s: "sorted ?xs" by (rule sorted_map_upt_mono) (rule progress_at_mono)
  have "sorted (?xs @ [100])" using s b by (simp add: sorted_append)
  then show ?thesis using run fin b s by (auto simp: pipe_final_def)
qed

section \<open>Witnesses\<close>

text \<open>The properties at concrete options and inputs: chunk size 4 on 10 and on 8 bytes.\<close>

theorem pipeline_roundtrip_witness:
  "\<exists>p cs. pipe_run \<lparr>opt_write = Some 4, opt_read = Some 4\<rparr> ([1, 2, 3, 4, 5, 6, 7, 8, 9, 10] :: bytes) = Some (Inr p) \<and> pp_halt p = None \<and>
     wp_outcome (pp_wp p) = Resolved cs \<and> concat cs = [1, 2, 3, 4, 5, 6, 7, 8, 9, 10] \<and> length cs = nchunks 4 (length ([1, 2, 3, 4, 5, 6, 7, 8, 9, 10] :: bytes)) \<and>
     last (wp_progress (pp_wp p)) = 100"
  using pipeline_roundtrip [of "\<lparr>opt_write = Some 4, opt_read = Some 4\<rparr>" "[1, 2, 3, 4, 5, 6, 7, 8, 9, 10]"] by (simp add: assign_opts_def)

theorem pipeline_exact_multiple_pending_witness:
  "\<exists>p. pipe_run \<lparr>opt_write = Some 4, opt_read = Some 4\<rparr> ([1, 2, 3, 4, 5, 6, 7, 8] :: bytes) = Some (Inr p) \<and> pp_halt p = None \<and>
     \<not> push_more (pp_wp p) \<and> concat (wp_targets (pp_wp p)) = [1, 2, 3, 4, 5, 6, 7, 8] \<and>
     M_Finish \<notin> set (pp_to_main p) \<and> wp_outcome (pp_wp p) = Pending"
  using pipeline_exact_multiple_pending [of "\<lparr>opt_write = Some 4, opt_read = Some 4\<rparr>" "[1, 2, 3, 4, 5, 6, 7, 8]"] by (simp add: assign_opts_def)


theorem pipeline_write_exceeds_read_witness:
  "\<exists>p. pipe_run \<lparr>opt_write = Some 4, opt_read = Some 3\<rparr> ([1, 2, 3, 4, 5, 6, 7, 8, 9, 10] :: bytes) = Some (Inr p) \<and> pp_halt p = Some (Fault RangeError) \<and>
     wp_outcome (pp_wp p) = Pending"
  using pipeline_write_exceeds_read [of "\<lparr>opt_write = Some 4, opt_read = Some 3\<rparr>" "[1, 2, 3, 4, 5, 6, 7, 8, 9, 10]"] by (simp add: assign_opts_def)

theorem pipeline_empty_input_witness:
  "\<exists>p. pipe_run \<lparr>opt_write = Some 4, opt_read = Some 4\<rparr> [] = Some (Inr p) \<and> pp_halt p = None \<and> W_Push \<notin> set (pp_to_worker p) \<and>
     M_Finish \<notin> set (pp_to_main p) \<and> wp_outcome (pp_wp p) = Pending"
  using pipeline_empty_input [of "\<lparr>opt_write = Some 4, opt_read = Some 4\<rparr>"] by simp

theorem pipeline_progress_bounded_witness:
  "\<exists>p. pipe_run \<lparr>opt_write = Some 4, opt_read = Some 4\<rparr> ([1, 2, 3, 4, 5, 6, 7, 8, 9, 10] :: bytes) = Some (Inr p) \<and> sorted (wp_progress (pp_wp p)) \<and>
     (\<forall>x \<in> set (wp_progress (pp_wp p)). 0 < x \<and> x \<le> 100) \<and> nchunks 4 (length ([1, 2, 3, 4, 5, 6, 7, 8, 9, 10] :: bytes)) \<le> length (wp_progress (pp_wp p))"
  using pipeline_progress_bounded [of "\<lparr>opt_write = Some 4, opt_read = Some 4\<rparr>" "[1, 2, 3, 4, 5, 6, 7, 8, 9, 10]"] by (simp add: assign_opts_def)

end
