(* ===== verification/Compress.thy ===== *)
theory Compress
  imports Pipeline
begin

text \<open>
  The consumer that App.tsx runs: \<^verbatim>\<open>CompressWorker\<close> of src/src/compress.worker.ts, a
  subclass of \<^verbatim>\<open>FileTranformingWorker\<close> whose loop hands each chunk to a pako deflater
  (\<^verbatim>\<open>CustromDeflate\<close>) instead of copying it. The deflater's \<^verbatim>\<open>onData\<close> copies each
  output chunk into the shared write buffer and waits for the proxy's acknowledgement; its
  \<^verbatim>\<open>onEnd\<close> posts \<^verbatim>\<open>"finish"\<close>. The codec itself (pako) is a parameter: a record of its
  constructor and of \<^verbatim>\<open>push\<close>, which returns the output chunks it passes to \<^verbatim>\<open>onData\<close>,
  in order, and whether it called \<^verbatim>\<open>onEnd\<close>. The theory composes the worker with the
  proxy of Producer.thy exactly as Pipeline.thy does for the copy worker.
\<close>

section \<open>The codec behind CustromDeflate\<close>

text \<open>
  \<^verbatim>\<open>new CustromDeflate(ftm)\<close> builds a pako \<^verbatim>\<open>Deflate\<close> with the given \<^verbatim>\<open>chunkSize\<close>;
  \<^verbatim>\<open>push(data, isLast)\<close> calls \<^verbatim>\<open>onData\<close> once per output chunk and \<^verbatim>\<open>onEnd\<close> when it
  ends the stream.
\<close>
record 'c codec =
  cx_new :: "nat \<Rightarrow> 'c"
  cx_push :: "'c \<Rightarrow> bytes \<Rightarrow> bool \<Rightarrow> 'c \<times> bytes list \<times> bool"

text \<open>
  The output of a codec fed a sequence of chunks with their end-of-stream flags.
\<close>

fun codec_feed :: "'c codec \<Rightarrow> 'c \<Rightarrow> (bytes \<times> bool) list \<Rightarrow> 'c \<times> bytes list" where
  "codec_feed cx c [] = (c, [])"
| "codec_feed cx c ((bs, l) # xs) =
     (case cx_push cx c bs l of (c1, outs, _) \<Rightarrow>
        (case codec_feed cx c1 xs of (c2, rest) \<Rightarrow> (c2, outs @ rest)))"

section \<open>CompressWorker\<close>

text \<open>
  The fields of \<^verbatim>\<open>CompressWorker\<close>: those of the base class and \<^verbatim>\<open>__deflator\<close>.
\<close>

record 'c cw_state =
  cw_base :: ftw_state
  cw_deflator :: "'c option"

definition cw_new :: "'c cw_state" where
  "cw_new = \<lparr>cw_base = ftw_new, cw_deflator = None\<rparr>"

text \<open>
  The \<^verbatim>\<open>chunkSize\<close> option of the deflater: the smaller of the worker's two buffer sizes.
\<close>

definition deflate_chunkSize :: "ftw_state \<Rightarrow> nat" where
  "deflate_chunkSize w =
     (if ftw_readBufferSize w < ftw_writeBufferSize w then ftw_readBufferSize w else ftw_writeBufferSize w)"

text \<open>
  The \<^verbatim>\<open>"init"\<close> branch: the fields and lock view as in the base class, then the deflater
  is built from the sizes just set, \<^verbatim>\<open>["inited"]\<close> is posted and the status becomes
  \<open>INITED\<close>.
\<close>

definition cw_on_init :: "'c codec \<Rightarrow> 'c cw_state \<Rightarrow> init_payload \<Rightarrow> js_error + ('c cw_state \<times> to_main list)" where
  "cw_on_init cx s p =
     (let w = (cw_base s)\<lparr>ftw_readBuffer := Some (ip_readBuffer p), ftw_writeBuffer := Some (ip_writeBuffer p),
                ftw_readBufferSize := ip_readBufferSize p, ftw_writeBufferSize := ip_writeBufferSize p,
                ftw_lockSab := Some (ip_lockSab p), ftw_fileLength := ip_fileLength p\<rparr> in
      case worker_view of
        Inl e \<Rightarrow> Inl e
      | Inr v \<Rightarrow>
          Inr (\<lparr>cw_base = w\<lparr>ftw_view := Some v, ftw_status := INITED\<rparr>,
                 cw_deflator = Some (cx_new cx (deflate_chunkSize w))\<rparr>, [M_Inited]))"

text \<open>
  \<^verbatim>\<open>onMessage\<close>: the same payload check and the same \<^verbatim>\<open>"push"\<close> state check as the base
  class (\<open>ftw_push_start\<close>); the loop is run by the composition.
\<close>

datatype 'c cw_dispatch = CW_Failed js_error | CW_Inited "'c cw_state" "to_main list" | CW_Pushing "'c cw_state"

fun cw_onMessage :: "'c codec \<Rightarrow> 'c cw_state \<Rightarrow> to_worker \<Rightarrow> 'c cw_dispatch" where
  "cw_onMessage cx s W_Short = CW_Failed IncorrectPayload"
| "cw_onMessage cx s (W_Init p) =
     (case cw_on_init cx s p of Inl e \<Rightarrow> CW_Failed e | Inr (s', msgs) \<Rightarrow> CW_Inited s' msgs)"
| "cw_onMessage cx s W_Push =
     (case ftw_push_start (cw_base s) of Inl e \<Rightarrow> CW_Failed e | Inr w \<Rightarrow> CW_Pushing (s\<lparr>cw_base := w\<rparr>))"
| "cw_onMessage cx s (W_Other e) = CW_Failed UnsupportedMessage"

text \<open>
  First part of a pass of the loop (lines 93-103): view \<open>readLength\<close> bytes of the read
  buffer, flag the last chunk (\<^verbatim>\<open>readOffset + readLength >= fileLength\<close>) and push the view
  into the deflater. An absent deflater is the \<^verbatim>\<open>TypeError\<close> of \<^verbatim>\<open>undefined.push\<close>.
\<close>

definition cw_read_push :: "'c codec \<Rightarrow> 'c cw_state \<Rightarrow> shared_mem \<Rightarrow> js_error + ('c cw_state \<times> bytes list \<times> bool)" where
  "cw_read_push cx s mem =
     (let w = cw_base s; n = ftw_readLength w in
      case ftw_readBuffer w of
        None \<Rightarrow> Inl RangeError
      | Some rb \<Rightarrow>
          (case ta_view (mem rb) 0 n of
             Inl e \<Rightarrow> Inl e
           | Inr readView \<Rightarrow>
               (let isFinished = ftw_fileLength w \<le> ftw_readOffset w + n in
                case cw_deflator s of
                  None \<Rightarrow> Inl TypeError
                | Some d \<Rightarrow>
                    (case cx_push cx d readView isFinished of
                       (d', outs, ended) \<Rightarrow> Inr (s\<lparr>cw_deflator := Some d'\<rparr>, outs, ended)))))"

text \<open>
  \<^verbatim>\<open>onData(chunk)\<close> up to its \<^verbatim>\<open>writeCond.wait()\<close>: view as many bytes at the start of the
  write buffer (\<open>RangeError\<close> if the chunk is longer), copy, and post
  \<^verbatim>\<open>["push", chunk.byteLength]\<close>.
\<close>

definition cw_onData :: "'c cw_state \<Rightarrow> shared_mem \<Rightarrow> bytes \<Rightarrow> js_error + (shared_mem \<times> to_main list)" where
  "cw_onData s mem chunk =
     (case ftw_writeBuffer (cw_base s) of
        None \<Rightarrow> Inl RangeError
      | Some wb \<Rightarrow>
          (case ta_view (mem wb) 0 (length chunk) of
             Inl e \<Rightarrow> Inl e
           | Inr _ \<Rightarrow> Inr (mem(wb := ta_set_prefix (mem wb) chunk), [M_Push (Some (length chunk))])))"

text \<open>
  \<^verbatim>\<open>onEnd\<close>: post \<^verbatim>\<open>["finish"]\<close>.
\<close>

definition cw_onEnd :: "to_main list" where
  "cw_onEnd = [M_Finish]"

text \<open>
  End of a pass (lines 104-108): notify, wait for the next chunk when input remains, and
  advance the offset.
\<close>

definition cw_advance :: "'c cw_state \<Rightarrow> 'c cw_state \<times> bool" where
  "cw_advance s =
     (let w = cw_base s; n = ftw_readLength w in
      (s\<lparr>cw_base := w\<lparr>ftw_readOffset := ftw_readOffset w + n\<rparr>\<rparr>, ftw_readOffset w + n < ftw_fileLength w))"

section \<open>The composed run\<close>

text \<open>
  The output chunks of one \<^verbatim>\<open>push\<close>, each through \<^verbatim>\<open>onData\<close> and acknowledged by the
  proxy's \<^verbatim>\<open>onReceived\<close> before the next one (the handshake on the proxy's read pair).
\<close>

fun cw_emit :: "'c cw_state \<Rightarrow> bytes list \<Rightarrow> wp_state \<times> shared_mem \<times> to_main list \<Rightarrow>
                  (wp_state \<times> shared_mem \<times> to_main list) \<times> halt option" where
  "cw_emit s [] st = (st, None)"
| "cw_emit s (out # outs) (wp, mem, ms) =
     (case cw_onData s mem out of
        Inl e \<Rightarrow> ((wp, mem, ms), Some (Fault e))
      | Inr (mem', ms1) \<Rightarrow>
          (case onReceived wp mem' (Some (length out)) of
             Recv_Ignored \<Rightarrow> ((wp, mem', ms @ ms1), Some Stall)
           | Recv_Failed e \<Rightarrow> ((wp, mem', ms @ ms1), Some (Fault e))
           | Recv_Done wp' \<Rightarrow> cw_emit s outs (wp', mem', ms @ ms1)))"

text \<open>
  The state of a run with the compress worker, as \<open>pipe\<close> in Pipeline.thy.
\<close>

record 'c cpipe =
  cp_wp :: wp_state
  cp_cw :: "'c cw_state"
  cp_mem :: shared_mem
  cp_to_worker :: "to_worker list"
  cp_to_main :: "to_main list"
  cp_halt :: "halt option"

text \<open>
  \<^verbatim>\<open>transformFile\<close> up to the first chunk, with \<^verbatim>\<open>new CompressWorker()\<close>.
\<close>

definition cpipe_setup :: "'c codec \<Rightarrow> task_opts \<Rightarrow> bytes \<Rightarrow> js_error + 'c cpipe" where
  "cpipe_setup cx opts ab =
     (case new_worker_proxy True (Some opts) (Some ab) of
        Inl e \<Rightarrow> Inl e
      | Inr (wp0, mem) \<Rightarrow>
          (let wp1 = register_done (onProgress wp0); msg = initWorker wp1 in
           case cw_onMessage cx cw_new msg of
             CW_Inited s ms \<Rightarrow>
               (case onInited wp1 of
                  Inl e \<Rightarrow> Inl e
                | Inr wp2 \<Rightarrow>
                    Inr \<lparr>cp_wp = wp2, cp_cw = s, cp_mem = mem, cp_to_worker = [msg],
                         cp_to_main = ms, cp_halt = None\<rparr>)
           | CW_Failed e \<Rightarrow> Inl e
           | CW_Pushing s \<Rightarrow> Inl UnexpectedState))"

text \<open>
  One round: the proxy writes a chunk (and posts \<^verbatim>\<open>"push"\<close> before the first), the worker
  pushes it into the deflater, every output chunk travels back, \<^verbatim>\<open>"finish"\<close> follows the
  last chunk's outputs, and the worker acknowledges.
\<close>

definition cpipe_round :: "'c codec \<Rightarrow> 'c cpipe \<Rightarrow> 'c cpipe" where
  "cpipe_round cx p =
     (case push_chunk (cp_wp p) (cp_mem p) of
        (wmsgs, Inl e) \<Rightarrow> p\<lparr>cp_to_worker := cp_to_worker p @ wmsgs, cp_halt := Some (Fault e)\<rparr>
      | (wmsgs, Inr (wp1, mem1)) \<Rightarrow>
          (let p1 = p\<lparr>cp_wp := wp1, cp_mem := mem1, cp_to_worker := cp_to_worker p @ wmsgs\<rparr> in
           case (if wmsgs = [] then CW_Pushing (cp_cw p) else cw_onMessage cx (cp_cw p) W_Push) of
             CW_Failed e \<Rightarrow> p1\<lparr>cp_halt := Some (Fault e)\<rparr>
           | CW_Inited s ms \<Rightarrow> p1\<lparr>cp_halt := Some Stall\<rparr>
           | CW_Pushing s \<Rightarrow>
               (if \<not> ftw_more (cw_base s) then p1\<lparr>cp_cw := s, cp_halt := Some Stall\<rparr>
                else case cw_read_push cx s mem1 of
                  Inl e \<Rightarrow> p1\<lparr>cp_cw := s, cp_halt := Some (Fault e)\<rparr>
                | Inr (s1, outs, ended) \<Rightarrow>
                    (case cw_emit s1 outs (wp1, mem1, []) of
                       ((wp2, mem2, ms), Some h) \<Rightarrow>
                         p1\<lparr>cp_wp := wp2, cp_cw := s1, cp_mem := mem2, cp_to_main := cp_to_main p @ ms,
                            cp_halt := Some h\<rparr>
                     | ((wp2, mem2, ms), None) \<Rightarrow>
                         (let wp3 = (if ended then onFinished wp2 else wp2) in
                          case cw_advance s1 of
                            (s2, waits) \<Rightarrow>
                              p1\<lparr>cp_wp := wp3, cp_cw := s2, cp_mem := mem2,
                                 cp_to_main := cp_to_main p @ ms @ (if ended then cw_onEnd else []),
                                 cp_halt := (if waits = push_more wp3 then None else Some Stall)\<rparr>)))))"

partial_function (option) cpipe_loop :: "'c codec \<Rightarrow> 'c cpipe \<Rightarrow> 'c cpipe option" where
  "cpipe_loop cx p =
     (if cp_halt p = None \<and> push_more (cp_wp p) then cpipe_loop cx (cpipe_round cx p) else Some p)"

declare cpipe_loop.simps [code]

definition cpipe_run :: "'c codec \<Rightarrow> task_opts \<Rightarrow> bytes \<Rightarrow> (js_error + 'c cpipe) option" where
  "cpipe_run cx opts ab =
     (case cpipe_setup cx opts ab of Inl e \<Rightarrow> Some (Inl e) | Inr p \<Rightarrow> map_option Inr (cpipe_loop cx p))"

text \<open>
  A reference codec for the specification's round-trip scenario: it copies its input and
  cuts it into pieces of at most \<^verbatim>\<open>chunkSize\<close> bytes, as pako's output chunks are.
\<close>

fun split_pieces :: "nat \<Rightarrow> bytes \<Rightarrow> bytes list" where
  "split_pieces k [] = []"
| "split_pieces k (x # xs) =
     (if k = 0 then [] else take k (x # xs) # split_pieces k (drop k (x # xs)))"

definition copy_codec :: "nat codec" where
  "copy_codec = \<lparr>cx_new = (\<lambda>k. k), cx_push = (\<lambda>k bs l. (k, split_pieces k bs, l))\<rparr>"

section \<open>The codec contract and reference values of a run\<close>

text \<open>
  pako's contract as the worker relies on it: from the deflater built with \<open>chunkSize = k\<close>,
  every push emits chunks of at most \<open>k\<close> bytes and calls \<^verbatim>\<open>onEnd\<close> exactly when it is the
  last push. The input chunks with their flags; the loop invariant after \<open>k\<close> rounds; the
  end of a run that completes every round.
\<close>

inductive codec_reach :: "'c codec \<Rightarrow> nat \<Rightarrow> 'c \<Rightarrow> bool" where
  init: "codec_reach cx k (cx_new cx k)"
| push: "codec_reach cx k c \<Longrightarrow> cx_push cx c bs l = (c', outs, e) \<Longrightarrow> codec_reach cx k c'"

definition codec_ok :: "'c codec \<Rightarrow> nat \<Rightarrow> bool" where
  "codec_ok cx k \<longleftrightarrow>
     (\<forall>c bs l. codec_reach cx k c \<longrightarrow>
        (\<forall>out \<in> set (fst (snd (cx_push cx c bs l))). length out \<le> k) \<and> snd (snd (cx_push cx c bs l)) = l)"

definition input_chunks :: "bytes \<Rightarrow> nat \<Rightarrow> (bytes \<times> bool) list" where
  "input_chunks ab c = map (\<lambda>i. (chunk_at ab c i, Suc i = nchunks c (length ab))) [0..<nchunks c (length ab)]"

definition cp_inv :: "'c codec \<Rightarrow> bytes \<Rightarrow> task_conf \<Rightarrow> nat \<Rightarrow> 'c cpipe \<Rightarrow> bool" where
  "cp_inv cx ab c k p \<longleftrightarrow>
     proxy_ready ab c k (cp_wp p) (cp_mem p) \<and> worker_ready ab c k (cw_base (cp_cw p)) \<and>
     wp_targets (cp_wp p) =
       snd (codec_feed cx (cx_new cx (min (writeBufferSize c) (readBufferSize c)))
              (take k (input_chunks ab (writeBufferSize c)))) \<and>
     cw_deflator (cp_cw p) =
       Some (fst (codec_feed cx (cx_new cx (min (writeBufferSize c) (readBufferSize c)))
                    (take k (input_chunks ab (writeBufferSize c))))) \<and>
     cp_halt p = None \<and> M_Finish \<notin> set (cp_to_main p)"

definition cp_final :: "'c codec \<Rightarrow> bytes \<Rightarrow> task_conf \<Rightarrow> 'c cpipe \<Rightarrow> bool" where
  "cp_final cx ab c p \<longleftrightarrow>
     cp_halt p = None \<and> \<not> push_more (cp_wp p) \<and> M_Finish \<in> set (cp_to_main p) \<and>
     wp_outcome (cp_wp p) =
       Resolved (snd (codec_feed cx (cx_new cx (min (writeBufferSize c) (readBufferSize c)))
                        (input_chunks ab (writeBufferSize c))))"

section \<open>Lemmas\<close>

lemma codec_feed_snoc:
  "codec_feed cx c (xs @ [(bs, l)]) =
     (case codec_feed cx c xs of (c1, o1) \<Rightarrow> (case cx_push cx c1 bs l of (c2, o2, _) \<Rightarrow> (c2, o1 @ o2)))"
  by (induction cx c xs rule: codec_feed.induct) (auto split: prod.splits)

lemma codec_feed_reach: "codec_reach cx k c \<Longrightarrow> codec_reach cx k (fst (codec_feed cx c xs))"
proof (induction xs arbitrary: c)
  case Nil
  then show ?case by simp
next
  case (Cons x xs)
  obtain bs l where x: "x = (bs, l)" by (cases x)
  obtain c1 outs e where p: "cx_push cx c bs l = (c1, outs, e)" by (metis prod_cases3)
  have "codec_reach cx k (fst (codec_feed cx c1 xs))"
    by (rule Cons.IH) (rule codec_reach.push [OF Cons.prems p])
  then show ?case using x p by (cases "codec_feed cx c1 xs") simp
qed

lemma cw_emit_ok:
  assumes wb: "ftw_writeBuffer (cw_base s) = Some ProxyReadBuf"
    and st: "wp_status wp = WORKING" and len: "length (mem ProxyReadBuf) = readBufferSize (wp_opts wp)"
    and outs: "\<forall>out \<in> set outs. length out \<le> readBufferSize (wp_opts wp)"
  shows "\<exists>mem'. cw_emit s outs (wp, mem, ms) =
           ((wp\<lparr>wp_targets := wp_targets wp @ outs,
                wp_progress := wp_progress wp @
                  (if wp_progress_cb wp
                   then replicate (length outs) (real (wp_offset wp) / real (length (wp_ab wp)) * 100) else [])\<rparr>,
             mem', ms @ map (\<lambda>out. M_Push (Some (length out))) outs), None) \<and>
         length (mem' ProxyReadBuf) = readBufferSize (wp_opts wp) \<and> mem' ProxyWriteBuf = mem ProxyWriteBuf"
  using st len outs
proof (induction outs arbitrary: wp mem ms)
  case Nil
  then show ?case by simp
next
  case (Cons out outs)
  let ?mem1 = "mem(ProxyReadBuf := ta_set_prefix (mem ProxyReadBuf) out)"
  have ol: "length out \<le> readBufferSize (wp_opts wp)" using Cons.prems(3) by simp
  have d: "cw_onData s mem out = Inr (?mem1, [M_Push (Some (length out))])"
    using wb ol Cons.prems(2) by (simp add: cw_onData_def ta_view_ok)
  let ?wp1 = "wp\<lparr>wp_targets := wp_targets wp @ [out],
                 wp_progress := (if wp_progress_cb wp
                    then wp_progress wp @ [real (wp_offset wp) / real (length (wp_ab wp)) * 100]
                    else wp_progress wp)\<rparr>"
  have r: "onReceived wp ?mem1 (Some (length out)) = Recv_Done ?wp1"
    using Cons.prems(1,2) ol by (simp add: onReceived_def ta_view_set_prefix)
  have step: "cw_emit s (out # outs) (wp, mem, ms) = cw_emit s outs (?wp1, ?mem1, ms @ [M_Push (Some (length out))])"
    using d r by simp
  have pre: "wp_status ?wp1 = WORKING" "length (?mem1 ProxyReadBuf) = readBufferSize (wp_opts ?wp1)"
    "\<forall>out \<in> set outs. length out \<le> readBufferSize (wp_opts ?wp1)"
    using Cons.prems ol by simp_all
  obtain mem' where ih: "cw_emit s outs (?wp1, ?mem1, ms @ [M_Push (Some (length out))]) =
      ((?wp1\<lparr>wp_targets := wp_targets ?wp1 @ outs,
                wp_progress := wp_progress ?wp1 @
                  (if wp_progress_cb ?wp1
                   then replicate (length outs) (real (wp_offset ?wp1) / real (length (wp_ab ?wp1)) * 100) else [])\<rparr>,
        mem', (ms @ [M_Push (Some (length out))]) @ map (\<lambda>out. M_Push (Some (length out))) outs), None)"
      and m': "length (mem' ProxyReadBuf) = readBufferSize (wp_opts ?wp1)" "mem' ProxyWriteBuf = ?mem1 ProxyWriteBuf"
    using Cons.IH [of ?wp1 ?mem1 "ms @ [M_Push (Some (length out))]", OF pre] by blast
  show ?case
  proof (intro exI conjI)
    show "cw_emit s (out # outs) (wp, mem, ms) =
           ((wp\<lparr>wp_targets := wp_targets wp @ out # outs,
                wp_progress := wp_progress wp @
                  (if wp_progress_cb wp
                   then replicate (length (out # outs)) (real (wp_offset wp) / real (length (wp_ab wp)) * 100) else [])\<rparr>,
             mem', ms @ map (\<lambda>out. M_Push (Some (length out))) (out # outs)), None)"
      unfolding step ih by (cases "wp_progress_cb wp") simp_all
    show "length (mem' ProxyReadBuf) = readBufferSize (wp_opts wp)" using m' by simp
    show "mem' ProxyWriteBuf = mem ProxyWriteBuf" using m' by simp
  qed
qed

lemma codec_ok_push:
  assumes "codec_ok cx k" "codec_reach cx k d" "cx_push cx d bs l = (d', outs, e)"
  shows "(\<forall>out \<in> set outs. length out \<le> k) \<and> e = l"
  using assms unfolding codec_ok_def by (metis fst_conv snd_conv)

lemma take_input_chunks:
  assumes "k < nchunks c (length ab)"
  shows "take (Suc k) (input_chunks ab c) =
           take k (input_chunks ab c) @ [(chunk_at ab c k, Suc k = nchunks c (length ab))]"
  using assms by (simp add: input_chunks_def take_Suc_conv_app_nth)

lemma cpipe_round_eq:
  assumes inv: "cp_inv cx ab c k p" and c: "0 < writeBufferSize c"
    and k: "k * writeBufferSize c < length ab"
    and ok: "codec_ok cx (min (writeBufferSize c) (readBufferSize c))"
  defines "C \<equiv> writeBufferSize c" and "L \<equiv> length ab"
  defines "n \<equiv> min C (L - k * C)" and "v \<equiv> chunk_at ab C k"
  defines "d \<equiv> fst (codec_feed cx (cx_new cx (min C (readBufferSize c))) (take k (input_chunks ab C)))"
  defines "w1 \<equiv> (if k = 0 then (cw_base (cp_cw p))\<lparr>ftw_status := WORKING\<rparr> else cw_base (cp_cw p))"
  defines "fin \<equiv> Suc k = nchunks C L"
  obtains d' outs mem2 where "cx_push cx d v fin = (d', outs, fin)"
    and "\<forall>out \<in> set outs. length out \<le> readBufferSize c"
    and "length (mem2 ProxyReadBuf) = readBufferSize c"
    and "mem2 ProxyWriteBuf = ta_set_prefix (cp_mem p ProxyWriteBuf) v"
    and "cpipe_round cx p =
       p\<lparr>cp_wp := (let wp2 = (cp_wp p)\<lparr>wp_offset := k * C + n, wp_targets := wp_targets (cp_wp p) @ outs,
                        wp_progress := wp_progress (cp_wp p) @
                          replicate (length outs) (real (k * C + n) / real L * 100)\<rparr>
                    in if fin then onFinished wp2 else wp2),
         cp_cw := (cp_cw p)\<lparr>cw_base := w1\<lparr>ftw_readOffset := k * C + n\<rparr>, cw_deflator := Some d'\<rparr>,
         cp_mem := mem2,
         cp_to_worker := cp_to_worker p @ (if k = 0 then [W_Push] else []),
         cp_to_main := cp_to_main p @ map (\<lambda>out. M_Push (Some (length out))) outs @
                         (if fin then cw_onEnd else [])\<rparr>"
proof -
  have pr: "proxy_ready ab c k (cp_wp p) (cp_mem p)" and wr: "worker_ready ab c k (cw_base (cp_cw p))"
    using inv by (simp_all add: cp_inv_def)
  note front = round_front [OF pr wr c k, folded C_def L_def, folded n_def, folded v_def w1_def]
  let ?mem1 = "(cp_mem p)(ProxyWriteBuf := ta_set_prefix (cp_mem p ProxyWriteBuf) v)"
  let ?wp1 = "(cp_wp p)\<lparr>wp_offset := k * C + n\<rparr>"
  let ?s1 = "(cp_cw p)\<lparr>cw_base := w1\<rparr>"
  have kL: "k * C < L" using k by (simp add: C_def L_def)
  have kn: "k < nchunks C L" using kL nchunks_less_iff [OF c [folded C_def]] by simp
  have finI: "L \<le> k * C + n \<longleftrightarrow> fin"
    using kL nchunks_less_iff [OF c [folded C_def], of "Suc k" L] kn
    unfolding fin_def n_def chunk_step_min [OF kL] by auto
  have disp: "(if (if k = 0 then [W_Push] else []) = [] then CW_Pushing (cp_cw p)
               else cw_onMessage cx (cp_cw p) W_Push) = CW_Pushing ?s1"
    using front(2,3) by (cases "k = 0") simp_all
  have dd: "cw_deflator (cp_cw p) = Some d" using inv by (simp add: cp_inv_def d_def C_def)
  have reach: "codec_reach cx (min C (readBufferSize c)) d"
    unfolding d_def by (rule codec_feed_reach) (rule codec_reach.init)
  obtain d' outs e where push: "cx_push cx d v fin = (d', outs, e)" by (metis prod_cases3)
  have outs: "\<forall>out \<in> set outs. length out \<le> min C (readBufferSize c)" and e: "e = fin"
    using codec_ok_push [OF ok [folded C_def] reach push] by simp_all
  have rp: "cw_read_push cx ?s1 ?mem1 = Inr (?s1\<lparr>cw_deflator := Some d'\<rparr>, outs, fin)"
    using front(4-13) dd push e finI pr [unfolded proxy_ready_def]
    by (simp add: cw_read_push_def Let_def ta_view_set_prefix L_def C_def)
  have outsR: "\<forall>out \<in> set outs. length out \<le> readBufferSize c" using outs by auto
  obtain mem2 where em: "cw_emit (?s1\<lparr>cw_deflator := Some d'\<rparr>) outs (?wp1, ?mem1, []) =
      ((?wp1\<lparr>wp_targets := wp_targets ?wp1 @ outs,
                wp_progress := wp_progress ?wp1 @
                  (if wp_progress_cb ?wp1
                   then replicate (length outs) (real (wp_offset ?wp1) / real (length (wp_ab ?wp1)) * 100) else [])\<rparr>,
        mem2, [] @ map (\<lambda>out. M_Push (Some (length out))) outs), None)"
    and m2: "length (mem2 ProxyReadBuf) = readBufferSize (wp_opts ?wp1)" "mem2 ProxyWriteBuf = ?mem1 ProxyWriteBuf"
    using cw_emit_ok [of "?s1\<lparr>cw_deflator := Some d'\<rparr>" ?wp1 ?mem1 outs "[]"] front(13) pr outsR
    by (auto simp: proxy_ready_def)
  have pm: "push_more (if fin then onFinished wp2 else wp2) \<longleftrightarrow> k * C + n < L"
    if "wp_offset wp2 = k * C + n" "wp_ab wp2 = ab" for wp2
    using that by (simp add: push_more_def L_def)
  show ?thesis
  proof (rule that [OF _ outsR])
    show "cx_push cx d v fin = (d', outs, fin)" using push e by simp
    show "length (mem2 ProxyReadBuf) = readBufferSize c" using m2 pr by (simp add: proxy_ready_def)
    show "mem2 ProxyWriteBuf = ta_set_prefix (cp_mem p ProxyWriteBuf) v" using m2 by simp
  qed (unfold cpipe_round_def front(1) prod.case sum.case Let_def,
       insert disp front(4) rp em pm pr inv finI,
       simp add: cw_advance_def proxy_ready_def cp_inv_def front(5) front(8,9) L_def)
qed

lemma codec_feed_step:
  assumes "k < nchunks c (length ab)"
    and "cx_push cx (fst (codec_feed cx c0 (take k (input_chunks ab c)))) (chunk_at ab c k)
           (Suc k = nchunks c (length ab)) = (d', outs, e)"
  shows "codec_feed cx c0 (take (Suc k) (input_chunks ab c)) =
           (d', snd (codec_feed cx c0 (take k (input_chunks ab c))) @ outs)"
  using assms by (cases "codec_feed cx c0 (take k (input_chunks ab c))")
    (simp add: take_input_chunks codec_feed_snoc)

lemma cp_inv_step:
  assumes inv: "cp_inv cx ab c k p" and c: "0 < writeBufferSize c"
    and ok: "codec_ok cx (min (writeBufferSize c) (readBufferSize c))"
    and k: "Suc k * writeBufferSize c < length ab"
  shows "cp_inv cx ab c (Suc k) (cpipe_round cx p)"
proof -
  have kL: "k * writeBufferSize c < length ab" using k by simp
  have kn: "Suc k < nchunks (writeBufferSize c) (length ab)" using k nchunks_less_iff [OF c] by simp
  have n: "min (writeBufferSize c) (length ab - k * writeBufferSize c) = writeBufferSize c" using k by simp
  have vl: "length (chunk_at ab (writeBufferSize c) k) = writeBufferSize c"
    using k by (simp add: chunk_at_def)
  show ?thesis
    apply (rule cpipe_round_eq [OF inv c kL ok])
    subgoal premises prems for d' outs mem2
    proof -
      have feed: "codec_feed cx (cx_new cx (min (writeBufferSize c) (readBufferSize c)))
          (take (Suc k) (input_chunks ab (writeBufferSize c))) =
          (d', snd (codec_feed cx (cx_new cx (min (writeBufferSize c) (readBufferSize c)))
                  (take k (input_chunks ab (writeBufferSize c)))) @ outs)"
        by (rule codec_feed_step [OF _ prems(1)]) (use kn in simp)
      show ?thesis
        unfolding prems(5) using inv n kn prems(3,4) vl feed
        by (simp add: cp_inv_def proxy_ready_def worker_ready_def Let_def image_iff)
    qed
    done
qed

lemma cp_round_last:
  assumes inv: "cp_inv cx ab c k p" and c: "0 < writeBufferSize c"
    and ok: "codec_ok cx (min (writeBufferSize c) (readBufferSize c))"
    and k: "k * writeBufferSize c < length ab" "length ab \<le> Suc k * writeBufferSize c"
  shows "cp_final cx ab c (cpipe_round cx p)"
proof -
  have nk: "nchunks (writeBufferSize c) (length ab) = Suc k"
    using nchunks_less_iff [OF c, of k "length ab"] nchunks_less_iff [OF c, of "Suc k" "length ab"] k by simp
  have all: "take (Suc k) (input_chunks ab (writeBufferSize c)) = input_chunks ab (writeBufferSize c)"
    using nk by (simp add: input_chunks_def)
  have off: "k * writeBufferSize c + min (writeBufferSize c) (length ab - k * writeBufferSize c) = length ab"
    using k by simp
  show ?thesis
    apply (rule cpipe_round_eq [OF inv c k(1) ok])
    subgoal premises prems for d' outs mem2
    proof -
      have feed: "codec_feed cx (cx_new cx (min (writeBufferSize c) (readBufferSize c)))
          (take (Suc k) (input_chunks ab (writeBufferSize c))) =
          (d', snd (codec_feed cx (cx_new cx (min (writeBufferSize c) (readBufferSize c)))
                  (take k (input_chunks ab (writeBufferSize c)))) @ outs)"
        by (rule codec_feed_step [OF _ prems(1)]) (use nk in simp)
      show ?thesis
        unfolding prems(5) using inv nk feed all off
        by (simp add: cp_final_def cp_inv_def proxy_ready_def Let_def onFinished_def settle_def
            push_more_def cw_onEnd_def)
    qed
    done
qed

lemma cpipe_loop_closed:
  assumes c: "0 < writeBufferSize c" and ok: "codec_ok cx (min (writeBufferSize c) (readBufferSize c))"
  shows "cp_inv cx ab c k p \<Longrightarrow> k * writeBufferSize c < length ab \<Longrightarrow>
           \<exists>q. cpipe_loop cx p = Some q \<and> cp_final cx ab c q"
proof (induction "nchunks (writeBufferSize c) (length ab) - k" arbitrary: k p rule: less_induct)
  case less
  have go: "cpipe_loop cx p = cpipe_loop cx (cpipe_round cx p)"
    using less.prems by (simp add: cpipe_loop.simps [of cx p] cp_inv_def proxy_ready_def push_more_def)
  show ?case
  proof (cases "Suc k * writeBufferSize c < length ab")
    case True
    have "nchunks (writeBufferSize c) (length ab) - Suc k < nchunks (writeBufferSize c) (length ab) - k"
      using less.prems(2) nchunks_less_iff [OF c] by (simp add: diff_less_mono2)
    then show ?thesis
      using less.hyps [OF _ cp_inv_step [OF less.prems(1) c ok True] True] go by simp
  next
    case False
    have fin: "cp_final cx ab c (cpipe_round cx p)"
      using cp_round_last [OF less.prems(1) c ok less.prems(2)] False by simp
    then have "cpipe_loop cx (cpipe_round cx p) = Some (cpipe_round cx p)"
      by (simp add: cpipe_loop.simps [of cx "cpipe_round cx p"] cp_final_def)
    then show ?thesis using go fin by auto
  qed
qed

lemma cpipe_setup_inv:
  "\<exists>p. cpipe_setup cx opts ab = Inr p \<and> cp_inv cx ab (assign_opts defaultTaskOpts opts) 0 p \<and>
       cp_to_worker p = [initWorker (cp_wp p)]"
  by (simp add: cpipe_setup_def new_worker_proxy_def proxy_view_eq worker_view_eq cw_on_init_def cw_new_def
      onInited_def push_start_def register_done_def onProgress_def initWorker_def ftw_new_def deflate_chunkSize_def
      cp_inv_def proxy_ready_def worker_ready_def Let_def min_def)

lemma cpipe_run_final:
  assumes c: "0 < writeBufferSize (assign_opts defaultTaskOpts opts)"
    and ok: "codec_ok cx (min (writeBufferSize (assign_opts defaultTaskOpts opts)) (readBufferSize (assign_opts defaultTaskOpts opts)))"
    and L: "0 < length ab"
  shows "\<exists>p. cpipe_run cx opts ab = Some (Inr p) \<and> cp_final cx ab (assign_opts defaultTaskOpts opts) p"
proof -
  obtain p0 where s: "cpipe_setup cx opts ab = Inr p0" and inv: "cp_inv cx ab (assign_opts defaultTaskOpts opts) 0 p0"
    using cpipe_setup_inv by blast
  obtain q where "cpipe_loop cx p0 = Some q" "cp_final cx ab (assign_opts defaultTaskOpts opts) q"
    using cpipe_loop_closed [OF c ok inv] L by auto
  then show ?thesis using s by (simp add: cpipe_run_def)
qed

lemma split_pieces_bound: "\<forall>out \<in> set (split_pieces k xs). length out \<le> k"
  by (induction k xs rule: split_pieces.induct) auto

lemma concat_split_pieces: "0 < k \<Longrightarrow> concat (split_pieces k xs) = xs"
  by (induction k xs rule: split_pieces.induct) auto

lemma copy_codec_reach_gen: "codec_reach cx k c \<Longrightarrow> cx = copy_codec \<Longrightarrow> c = k"
  by (induction rule: codec_reach.induct) (auto simp: copy_codec_def)

lemma copy_codec_reach: "codec_reach copy_codec k c \<Longrightarrow> c = k"
  using copy_codec_reach_gen by blast

lemma copy_codec_ok: "codec_ok copy_codec k"
  unfolding codec_ok_def
proof (intro allI impI)
  fix c bs l
  assume "codec_reach copy_codec k c"
  then have "c = k" by (rule copy_codec_reach)
  then show "(\<forall>out \<in> set (fst (snd (cx_push copy_codec c bs l))). length out \<le> k) \<and>
             snd (snd (cx_push copy_codec c bs l)) = l"
    using split_pieces_bound [of k bs] by (simp add: copy_codec_def)
qed

lemma copy_codec_feed: "0 < k \<Longrightarrow> concat (snd (codec_feed copy_codec k xs)) = concat (map fst xs)"
proof (induction xs)
  case Nil
  then show ?case by simp
next
  case (Cons x xs)
  have "fst (codec_feed copy_codec k xs) = k"
    using copy_codec_reach [OF codec_feed_reach [OF codec_reach.init [of copy_codec k]]]
    by (simp add: copy_codec_def)
  then show ?case using Cons concat_split_pieces [OF Cons.prems]
    by (cases x; cases "codec_feed copy_codec k xs") (simp add: copy_codec_def)
qed

lemma split_pieces_single: "0 < length xs \<Longrightarrow> length xs \<le> k \<Longrightarrow> split_pieces k xs = [xs]"
  by (cases xs) auto

lemma copy_codec_feed_whole:
  "\<forall>x \<in> set xs. 0 < length (fst x) \<and> length (fst x) \<le> k \<Longrightarrow> snd (codec_feed copy_codec k xs) = map fst xs"
proof (induction xs)
  case Nil
  then show ?case by simp
next
  case (Cons x xs)
  have "fst (codec_feed copy_codec k xs) = k"
    using copy_codec_reach [OF codec_feed_reach [OF codec_reach.init [of copy_codec k]]]
    by (simp add: copy_codec_def)
  then show ?case using Cons split_pieces_single [of "fst x" k]
    by (cases x; cases "codec_feed copy_codec k xs") (simp add: copy_codec_def)
qed

lemma chunk_at_size:
  "0 < c \<Longrightarrow> i < nchunks c (length ab) \<Longrightarrow> 0 < length (chunk_at ab c i) \<and> length (chunk_at ab c i) \<le> c"
  using nchunks_less_iff [of c i "length ab"] by (simp add: chunk_at_def)

section \<open>Properties of a run with the compress worker\<close>

text \<open>
  C16: Transparent transport with the compress worker. For any codec that keeps pako's
  contract for the deflater's chunk size, a positive write size and a nonempty input, the run
  ends without fault, finish is posted, and the done() promise resolves with exactly the
  output chunks the codec emits for the input chunks, in order. Unlike the copy worker, this
  holds also when the length is a multiple of the write size and when the write size exceeds
  the read size.
\<close>

theorem compress_roundtrip:
  assumes c: "0 < writeBufferSize (assign_opts defaultTaskOpts opts)"
    and ok: "codec_ok cx (min (writeBufferSize (assign_opts defaultTaskOpts opts)) (readBufferSize (assign_opts defaultTaskOpts opts)))"
    and L: "0 < length ab"
  shows "\<exists>p. cpipe_run cx opts ab = Some (Inr p) \<and> cp_halt p = None \<and> M_Finish \<in> set (cp_to_main p) \<and>
           wp_outcome (cp_wp p) =
             Resolved (snd (codec_feed cx
               (cx_new cx (min (writeBufferSize (assign_opts defaultTaskOpts opts)) (readBufferSize (assign_opts defaultTaskOpts opts))))
               (input_chunks ab (writeBufferSize (assign_opts defaultTaskOpts opts)))))"
  using cpipe_run_final [OF c ok L] by (auto simp: cp_final_def)

text \<open>
  C17: Round trip with a copying codec. With a codec that copies its input in pieces of at
  most the chunk size, and positive buffer sizes, the concatenated output is the input; this
  covers the specification's 1 MiB scenario with 128 KiB and 96 KiB buffers.
\<close>

theorem compress_copy_roundtrip:
  assumes c: "0 < writeBufferSize (assign_opts defaultTaskOpts opts)" "0 < readBufferSize (assign_opts defaultTaskOpts opts)"
    and L: "0 < length ab"
  shows "\<exists>p cs. cpipe_run copy_codec opts ab = Some (Inr p) \<and> cp_halt p = None \<and>
           wp_outcome (cp_wp p) = Resolved cs \<and> concat cs = ab"
proof -
  let ?c = "assign_opts defaultTaskOpts opts"
  obtain p where run: "cpipe_run copy_codec opts ab = Some (Inr p)" and fin: "cp_final copy_codec ab ?c p"
    using cpipe_run_final [OF c(1) copy_codec_ok L] by blast
  have "concat (snd (codec_feed copy_codec (min (writeBufferSize ?c) (readBufferSize ?c)) (input_chunks ab (writeBufferSize ?c))))
        = concat (map fst (input_chunks ab (writeBufferSize ?c)))"
    using c by (intro copy_codec_feed) simp
  also have "\<dots> = ab" using concat_chunk_at [OF c(1)] by (simp add: input_chunks_def comp_def)
  finally show ?thesis using run fin by (auto simp: cp_final_def copy_codec_def)
qed

lemma cpipe_run_empty:
  "\<exists>p. cpipe_run cx opts [] = Some (Inr p) \<and> cp_halt p = None \<and> W_Push \<notin> set (cp_to_worker p) \<and>
       M_Finish \<notin> set (cp_to_main p) \<and> wp_outcome (cp_wp p) = Pending"
proof -
  obtain p where s: "cpipe_setup cx opts [] = Inr p" "cp_inv cx [] (assign_opts defaultTaskOpts opts) 0 p"
    "cp_to_worker p = [initWorker (cp_wp p)]"
    using cpipe_setup_inv by blast
  then have "cpipe_loop cx p = Some p"
    by (simp add: cpipe_loop.simps [of cx p] cp_inv_def proxy_ready_def push_more_def)
  then show ?thesis using s by (simp add: cpipe_run_def cp_inv_def proxy_ready_def initWorker_def)
qed

text \<open>
  C19: Equivalence of the two workers. Where the copy worker completes (0 < write size <=
  read size, length not a multiple of the write size), the compress worker with a copying
  codec completes too and resolves done() with the same chunks.
\<close>

theorem compress_copy_equiv_plain:
  assumes c: "0 < writeBufferSize (assign_opts defaultTaskOpts opts)"
    "writeBufferSize (assign_opts defaultTaskOpts opts) \<le> readBufferSize (assign_opts defaultTaskOpts opts)"
    and L: "length ab mod writeBufferSize (assign_opts defaultTaskOpts opts) \<noteq> 0"
  shows "\<exists>p q. pipe_run opts ab = Some (Inr p) \<and> cpipe_run copy_codec opts ab = Some (Inr q) \<and>
           pp_halt p = None \<and> cp_halt q = None \<and> wp_outcome (pp_wp p) = wp_outcome (cp_wp q)"
proof -
  let ?c = "assign_opts defaultTaskOpts opts"
  let ?C = "writeBufferSize ?c"
  have L0: "0 < length ab" using L by (cases ab) auto
  obtain p where p: "pipe_run opts ab = Some (Inr p)" "pipe_final ab ?c p" using pipe_run_final [OF c L0] by blast
  obtain q where q: "cpipe_run copy_codec opts ab = Some (Inr q)" "cp_final copy_codec ab ?c q"
    using cpipe_run_final [OF c(1) copy_codec_ok L0] by blast
  have mn: "min ?C (readBufferSize ?c) = ?C" using c(2) by simp
  have "snd (codec_feed copy_codec ?C (input_chunks ab ?C)) = map (chunk_at ab ?C) [0..<nchunks ?C (length ab)]"
    using chunk_at_size [OF c(1)] by (subst copy_codec_feed_whole) (auto simp: input_chunks_def comp_def)
  then have "wp_outcome (cp_wp q) = Resolved (map (chunk_at ab ?C) [0..<nchunks ?C (length ab)])"
    using q(2) mn by (simp add: cp_final_def copy_codec_def)
  moreover have "wp_outcome (pp_wp p) = Resolved (map (chunk_at ab ?C) [0..<nchunks ?C (length ab)])"
    using p(2) L by (simp add: pipe_final_def)
  ultimately show ?thesis using p q by (auto simp: pipe_final_def cp_final_def)
qed

section \<open>Witnesses\<close>

theorem compress_roundtrip_witness:
  "\<exists>p. cpipe_run copy_codec \<lparr>opt_write = Some 4, opt_read = Some 3\<rparr> ([1, 2, 3, 4, 5, 6, 7, 8] :: bytes) = Some (Inr p) \<and> cp_halt p = None \<and>
     M_Finish \<in> set (cp_to_main p) \<and>
     wp_outcome (cp_wp p) = Resolved (snd (codec_feed copy_codec (cx_new copy_codec 3) (input_chunks [1, 2, 3, 4, 5, 6, 7, 8] 4)))"
  using compress_roundtrip [of "\<lparr>opt_write = Some 4, opt_read = Some 3\<rparr>" copy_codec "[1, 2, 3, 4, 5, 6, 7, 8]"] copy_codec_ok by (simp add: assign_opts_def)

text \<open>The specification's scenario: 1 MiB through a 128 KiB write buffer and a 96 KiB read buffer.\<close>

theorem compress_copy_roundtrip_witness:
  "\<exists>p cs. cpipe_run copy_codec \<lparr>opt_write = Some 131072, opt_read = Some 98304\<rparr> (replicate 1048576 0) = Some (Inr p) \<and> cp_halt p = None \<and>
     wp_outcome (cp_wp p) = Resolved cs \<and> concat cs = replicate 1048576 0"
  using compress_copy_roundtrip [of "\<lparr>opt_write = Some 131072, opt_read = Some 98304\<rparr>" "replicate 1048576 0"] by (simp add: assign_opts_def)

theorem compress_copy_equiv_plain_witness:
  "\<exists>p q. pipe_run \<lparr>opt_write = Some 4, opt_read = Some 4\<rparr> ([1, 2, 3, 4, 5, 6, 7, 8, 9, 10] :: bytes) = Some (Inr p) \<and> cpipe_run copy_codec \<lparr>opt_write = Some 4, opt_read = Some 4\<rparr> [1, 2, 3, 4, 5, 6, 7, 8, 9, 10] = Some (Inr q) \<and>
     pp_halt p = None \<and> cp_halt q = None \<and> wp_outcome (pp_wp p) = wp_outcome (cp_wp q)"
  using compress_copy_equiv_plain [of "\<lparr>opt_write = Some 4, opt_read = Some 4\<rparr>" "[1, 2, 3, 4, 5, 6, 7, 8, 9, 10]"] by (simp add: assign_opts_def)

end
