(* ===== verification/App.thy ===== *)
theory App
  imports Compress "HOL-Library.Sublist"
begin

text \<open>
  The drop zone of App.tsx (\<^verbatim>\<open>DropZone\<close>, with \<^verbatim>\<open>transformFile\<close>, \<^verbatim>\<open>saveBlobAsFile\<close>'s
  file name, and \<^verbatim>\<open>readFileAsArrayBuffer\<close> of lib.ts). Its React state is the record
  \<open>dz_state\<close>; the handlers are functions on it; the transforms a drop starts run on their
  own and end later, so the zone is a step relation \<open>dz_step\<close> whose steps are the
  handlers and the end of an in-flight transform. How a transform ends is a parameter
  \<open>res\<close>: for the compress zone it is computed from Compress (\<open>transformFile_outcome\<close>);
  the decompress worker is not in the repository. Each handler reads the state of the last
  render, as React's closures do when the zone re-renders between events.
\<close>

section \<open>Reading the file and naming the result\<close>

text \<open>A dropped file: its name and what \<^verbatim>\<open>FileReader\<close> delivers (\<open>None\<close>: the reader's
  \<^verbatim>\<open>onerror\<close>).\<close>

record drop_file =
  f_name :: string
  f_data :: "bytes option"

text \<open>\<^verbatim>\<open>readFileAsArrayBuffer(file)\<close>: resolves with the contents, or rejects with
  \<^verbatim>\<open>Error("something wrong!")\<close> after \<^verbatim>\<open>abort()\<close>.\<close>

definition readFileAsArrayBuffer :: "drop_file \<Rightarrow> js_error + bytes" where
  "readFileAsArrayBuffer f = (case f_data f of None \<Rightarrow> Inl ReadFailed | Some ab \<Rightarrow> Inr ab)"

text \<open>\<^verbatim>\<open>s.replace(pat, rep)\<close> with a string pattern: only the first occurrence is
  replaced (an empty pattern matches at the start).\<close>

fun replace_first :: "string \<Rightarrow> string \<Rightarrow> string \<Rightarrow> string" where
  "replace_first pat rep [] = (if pat = [] then rep else [])"
| "replace_first pat rep (c # cs) =
     (if prefix pat (c # cs) then rep @ drop (length pat) (c # cs) else c # replace_first pat rep cs)"

text \<open>The name \<^verbatim>\<open>transformFile\<close> passes to \<^verbatim>\<open>saveBlobAsFile\<close>.\<close>

definition output_name :: "string \<Rightarrow> string \<Rightarrow> string" where
  "output_name ty name =
     (if ty = ''compress'' then name @ ''.compress'' else replace_first ''.compress'' [] name)"

text \<open>\<^verbatim>\<open>new WorkerProxy(w, defaultTaskOpts, ab)\<close>: the options object is the full default
  configuration.\<close>

definition app_opts :: task_opts where
  "app_opts = \<lparr>opt_write = Some (writeBufferSize defaultTaskOpts),
               opt_read = Some (readBufferSize defaultTaskOpts)\<rparr>"

text \<open>How \<^verbatim>\<open>transformFile(file)\<close> ends in the compress zone: rejected when the file cannot
  be read or the set-up throws, never when the transfer never settles \<^verbatim>\<open>done()\<close>
  (\<open>Pending\<close>), and otherwise with the outcome of \<^verbatim>\<open>done()\<close>.\<close>

definition transformFile_outcome :: "'c codec \<Rightarrow> drop_file \<Rightarrow> outcome" where
  "transformFile_outcome cx f =
     (case readFileAsArrayBuffer f of
        Inl e \<Rightarrow> Rejected e
      | Inr ab \<Rightarrow>
          (case cpipe_run cx app_opts ab of
             None \<Rightarrow> Pending
           | Some (Inl e) \<Rightarrow> Rejected e
           | Some (Inr p) \<Rightarrow> wp_outcome (cp_wp p)))"

section \<open>The drop zone\<close>

text \<open>\<^verbatim>\<open>isHover\<close>, \<^verbatim>\<open>readingFile\<close>, \<^verbatim>\<open>progress\<close>; the transforms in flight, each with
  whether \<^verbatim>\<open>onDrop\<close> awaits it; and the names of the files saved so far.\<close>

record dz_state =
  dz_isHover :: bool
  dz_readingFile :: bool
  dz_progress :: real
  dz_inflight :: "(drop_file \<times> bool) list"
  dz_saved :: "string list"

definition dz_init :: dz_state where
  "dz_init = \<lparr>dz_isHover = False, dz_readingFile = False, dz_progress = 0, dz_inflight = [], dz_saved = []\<rparr>"

definition onDragEnter :: "dz_state \<Rightarrow> dz_state" where
  "onDragEnter s = s\<lparr>dz_isHover := True\<rparr>"

definition onDragExit :: "dz_state \<Rightarrow> dz_state" where
  "onDragExit s = s\<lparr>dz_isHover := False\<rparr>"

text \<open>An item of \<^verbatim>\<open>dataTransfer.items\<close>: of kind \<^verbatim>\<open>'file'\<close> with what \<^verbatim>\<open>getAsFile()\<close>
  returns, or of another kind.\<close>

datatype dt_item = Item_file "drop_file option" | Item_other

fun is_file_item :: "dt_item \<Rightarrow> bool" where
  "is_file_item (Item_file _) = True"
| "is_file_item Item_other = False"

text \<open>What a drop carries: \<^verbatim>\<open>dataTransfer.items\<close> when the browser has it, else
  \<^verbatim>\<open>dataTransfer.files\<close>.\<close>

datatype drop_data = DT_Items "dt_item list" | DT_Files "drop_file list"

text \<open>\<^verbatim>\<open>onDrop\<close> up to its first \<^verbatim>\<open>await\<close>: hover off; nothing while a file is being
  read; on the items branch the first file item starts a transform that \<^verbatim>\<open>onDrop\<close> awaits
  (a null file alerts and throws); on the files branch the first file starts a transform
  that is not awaited, so \<^verbatim>\<open>readingFile\<close> is set and at once reset.\<close>

definition onDrop :: "dz_state \<Rightarrow> drop_data \<Rightarrow> dz_state \<times> js_error option" where
  "onDrop s d =
     (let s1 = s\<lparr>dz_isHover := False\<rparr> in
      if dz_readingFile s then (s1, None)
      else case d of
        DT_Items its \<Rightarrow>
          (case find is_file_item its of
             Some (Item_file None) \<Rightarrow> (s1, Some NullFile)
           | Some (Item_file (Some f)) \<Rightarrow>
               (s1\<lparr>dz_readingFile := True, dz_inflight := dz_inflight s @ [(f, True)]\<rparr>, None)
           | _ \<Rightarrow> (s1, None))
      | DT_Files fs \<Rightarrow>
          (case fs of
             [] \<Rightarrow> (s1, None)
           | f # _ \<Rightarrow> (s1\<lparr>dz_readingFile := False, dz_inflight := dz_inflight s @ [(f, False)]\<rparr>, None)))"

text \<open>The progress callback: 100 hides the bar.\<close>

definition dz_onProgress :: "dz_state \<Rightarrow> real \<Rightarrow> dz_state" where
  "dz_onProgress s p = s\<lparr>dz_progress := (if p = 100 then 0 else p)\<rparr>"

definition remove_nth :: "nat \<Rightarrow> 'a list \<Rightarrow> 'a list" where
  "remove_nth i xs = take i xs @ drop (Suc i) xs"

text \<open>The \<open>i\<close>-th transform in flight resolves: the result is saved under its output name
  and, when \<^verbatim>\<open>onDrop\<close> awaited it, \<^verbatim>\<open>readingFile\<close> is reset.\<close>

definition transform_saved :: "string \<Rightarrow> dz_state \<Rightarrow> nat \<Rightarrow> dz_state" where
  "transform_saved ty s i =
     (case dz_inflight s ! i of (f, awaited) \<Rightarrow>
        s\<lparr>dz_inflight := remove_nth i (dz_inflight s),
          dz_saved := dz_saved s @ [output_name ty (f_name f)],
          dz_readingFile := (if awaited then False else dz_readingFile s)\<rparr>)"

text \<open>The \<open>i\<close>-th transform rejects: an awaited one makes \<^verbatim>\<open>onDrop\<close> reject before its
  \<^verbatim>\<open>setReadingFile(false)\<close>, so nothing but the list of transforms changes.\<close>

definition transform_failed :: "dz_state \<Rightarrow> nat \<Rightarrow> dz_state" where
  "transform_failed s i = s\<lparr>dz_inflight := remove_nth i (dz_inflight s)\<rparr>"

inductive dz_step :: "string \<Rightarrow> (drop_file \<Rightarrow> outcome) \<Rightarrow> dz_state \<Rightarrow> dz_state \<Rightarrow> bool"
  for ty res where
  enter: "dz_step ty res s (onDragEnter s)"
| exit: "dz_step ty res s (onDragExit s)"
| drop: "onDrop s d = (s', err) \<Longrightarrow> dz_step ty res s s'"
| progress: "dz_step ty res s (dz_onProgress s p)"
| saved: "i < length (dz_inflight s) \<Longrightarrow> res (fst (dz_inflight s ! i)) = Resolved cs \<Longrightarrow>
          dz_step ty res s (transform_saved ty s i)"
| failed: "i < length (dz_inflight s) \<Longrightarrow> res (fst (dz_inflight s ! i)) = Rejected e \<Longrightarrow>
          dz_step ty res s (transform_failed s i)"

definition dz_reach :: "string \<Rightarrow> (drop_file \<Rightarrow> outcome) \<Rightarrow> dz_state \<Rightarrow> bool" where
  "dz_reach ty res s \<longleftrightarrow> (dz_step ty res)\<^sup>*\<^sup>* dz_init s"

text \<open>At most one awaited transform is in flight, and while one is, \<^verbatim>\<open>readingFile\<close> is set.\<close>

definition dz_inv :: "dz_state \<Rightarrow> bool" where
  "dz_inv s \<longleftrightarrow>
     length (filter snd (dz_inflight s)) \<le> 1 \<and> (filter snd (dz_inflight s) \<noteq> [] \<longrightarrow> dz_readingFile s)"

text \<open>Every transform \<^verbatim>\<open>onDrop\<close> awaits never resolves, and \<^verbatim>\<open>readingFile\<close> is set.\<close>

definition dz_locked :: "(drop_file \<Rightarrow> outcome) \<Rightarrow> dz_state \<Rightarrow> bool" where
  "dz_locked res s \<longleftrightarrow>
     dz_readingFile s \<and> (\<forall>x \<in> set (dz_inflight s). snd x \<longrightarrow> (\<forall>cs. res (fst x) \<noteq> Resolved cs))"

text \<open>Two dropped files, used by the witnesses: an empty one and one of two bytes.\<close>

definition empty_file :: drop_file where
  "empty_file = \<lparr>f_name = ''e.bin'', f_data = Some []\<rparr>"

definition small_file :: drop_file where
  "small_file = \<lparr>f_name = ''a.txt'', f_data = Some [1, 2]\<rparr>"

section \<open>Lemmas\<close>

lemma length_filter_remove_nth:
  "i < length xs \<Longrightarrow>
   length (filter P (remove_nth i xs)) = length (filter P xs) - (if P (xs ! i) then 1 else 0)"
proof -
  assume i: "i < length xs"
  have "length (filter P xs) = length (filter P (take i xs @ xs ! i # drop (Suc i) xs))"
    using id_take_nth_drop [OF i] by (rule arg_cong)
  then show ?thesis by (simp add: remove_nth_def)
qed

lemma set_remove_nth: "set (remove_nth i xs) \<subseteq> set xs"
  by (auto simp: remove_nth_def dest: in_set_takeD in_set_dropD)

lemma onDrop_cases:
  assumes "onDrop s d = (s', err)"
  obtains (same) "dz_inflight s' = dz_inflight s" "dz_readingFile s' = dz_readingFile s"
  | (awaited) f where "\<not> dz_readingFile s" "dz_readingFile s'" "dz_inflight s' = dz_inflight s @ [(f, True)]"
  | (detached) f where "\<not> dz_readingFile s" "\<not> dz_readingFile s'" "dz_inflight s' = dz_inflight s @ [(f, False)]"
  using assms
  by (auto simp: onDrop_def Let_def split: if_split_asm drop_data.split_asm option.split_asm
                 dt_item.split_asm list.split_asm)

lemma dz_inv_init: "dz_inv dz_init"
  by (simp add: dz_inv_def dz_init_def)

lemma dz_inv_step:
  assumes "dz_step ty res s s'" "dz_inv s"
  shows "dz_inv s'"
  using assms
proof (induction rule: dz_step.induct)
  case (drop s d s' err)
  from drop.hyps show ?case
  proof (cases rule: onDrop_cases)
    case same
    then show ?thesis using drop.prems by (simp add: dz_inv_def)
  next
    case (awaited f)
    then show ?thesis using drop.prems by (auto simp: dz_inv_def)
  next
    case (detached f)
    then show ?thesis using drop.prems by (auto simp: dz_inv_def)
  qed
next
  case (saved i s cs)
  obtain f aw where x: "dz_inflight s ! i = (f, aw)" by (cases "dz_inflight s ! i")
  have l: "length (filter snd (remove_nth i (dz_inflight s))) =
           length (filter snd (dz_inflight s)) - (if aw then 1 else 0)"
    using length_filter_remove_nth [OF saved.hyps(1), of snd] x by simp
  show ?case
    using saved.prems l x by (auto simp: dz_inv_def transform_saved_def)
next
  case (failed i s e)
  have "length (filter snd (remove_nth i (dz_inflight s))) \<le> length (filter snd (dz_inflight s))"
    using length_filter_remove_nth [OF failed.hyps(1), of snd] by simp
  then show ?case
    using failed.prems by (auto simp: dz_inv_def transform_failed_def)
qed (simp_all add: dz_inv_def onDragEnter_def onDragExit_def dz_onProgress_def)

lemma dz_reach_inv: "dz_reach ty res s \<Longrightarrow> dz_inv s"
  unfolding dz_reach_def
  by (induction rule: rtranclp_induct) (auto intro: dz_inv_init dz_inv_step)

lemma dz_locked_step:
  assumes "dz_step ty res s s'" "dz_locked res s"
  shows "dz_locked res s'"
  using assms
proof (induction rule: dz_step.induct)
  case (drop s d s' err)
  then show ?case by (auto simp: dz_locked_def onDrop_def)
next
  case (saved i s cs)
  obtain f aw where x: "dz_inflight s ! i = (f, aw)" by (cases "dz_inflight s ! i")
  have "(f, aw) \<in> set (dz_inflight s)" using saved.hyps(1) x by (metis nth_mem)
  then have "\<not> aw" using saved.hyps(2) saved.prems x by (auto simp: dz_locked_def)
  then show ?case
    using saved.prems x set_remove_nth [of i "dz_inflight s"]
    by (auto simp: dz_locked_def transform_saved_def)
next
  case (failed i s e)
  then show ?case
    using set_remove_nth [of i "dz_inflight s"] by (auto simp: dz_locked_def transform_failed_def)
qed (auto simp: dz_locked_def onDragEnter_def onDragExit_def dz_onProgress_def)

lemma dz_locked_steps: "(dz_step ty res)\<^sup>*\<^sup>* s s' \<Longrightarrow> dz_locked res s \<Longrightarrow> dz_locked res s'"
  by (induction rule: rtranclp_induct) (auto intro: dz_locked_step)

lemma prefix_unbordered:
  assumes "prefix (d # r) (xs @ d # r @ z)" "d \<notin> set r" "xs \<noteq> []"
  shows "prefix (d # r) xs"
proof -
  obtain x xs' where xs: "xs = x # xs'" using assms(3) by (cases xs) auto
  have x: "x = d" and pr: "prefix r (xs' @ d # r @ z)" using assms(1) xs by auto
  show ?thesis
  proof (cases "length r \<le> length xs'")
    case True
    then have "prefix r xs'" using pr by (metis prefix_length_prefix prefix_order.order_refl
      prefix_prefix)
    then show ?thesis using xs x by simp
  next
    case False
    obtain z' where z: "xs' @ d # r @ z = r @ z'" using pr by (auto simp: prefix_def)
    have "(xs' @ d # r @ z) ! length xs' = (r @ z') ! length xs'" using z by simp
    then have "d = r ! length xs'" using False by (simp add: nth_append)
    then show ?thesis using assms(2) False by (metis not_le nth_mem)
  qed
qed

text \<open>\<^verbatim>\<open>replace\<close> removes the first \<^verbatim>\<open>".compress"\<close>: the one after the longest prefix that
  does not contain it.\<close>

lemma replace_first_unbordered:
  assumes "d \<notin> set r" "\<not> sublist (d # r) a"
  shows "replace_first (d # r) [] (a @ (d # r) @ z) = a @ z"
  using assms(2)
proof (induction a)
  case Nil
  then show ?case by simp
next
  case (Cons c cs)
  have ns: "\<not> sublist (d # r) cs" using Cons.prems by (auto simp: sublist_Cons_right)
  have np: "\<not> prefix (d # r) (c # cs)" using Cons.prems by (auto dest: prefix_imp_sublist)
  have h: "\<not> prefix (d # r) (c # cs @ d # r @ z)"
    using prefix_unbordered [of d r "c # cs" z] np assms(1) by auto
  have ih: "replace_first (d # r) [] (cs @ d # r @ z) = cs @ z" using Cons.IH [OF ns] by simp
  show ?case by (simp only: append_Cons replace_first.simps(2) if_not_P [OF h] ih)
qed

lemma replace_first_compress:
  "\<not> sublist ''.compress'' a \<Longrightarrow> replace_first ''.compress'' [] (a @ ''.compress'' @ z) = a @ z"
  using replace_first_unbordered [of "CHR ''.''" "''compress''" a z] by simp

lemma find_first_file:
  "\<forall>i \<in> set its. \<not> is_file_item i \<Longrightarrow> find is_file_item (its @ x # rest) = (if is_file_item x then Some x else find is_file_item rest)"
  by (induction its) auto

lemma dz_step_drop: "dz_step ty res s (fst (onDrop s d))"
  by (rule dz_step.drop [of s d _ "snd (onDrop s d)"]) simp

lemma dz_reach_drop:
  "dz_reach ty res s \<Longrightarrow> dz_reach ty res (fst (onDrop s d))"
  unfolding dz_reach_def by (erule rtranclp.rtrancl_into_rtrancl) (rule dz_step_drop)

section \<open>Properties of the drop zone\<close>

text \<open>C33: \<^verbatim>\<open>readingFile\<close> guards the awaited transforms: in every state of a drop zone at
  most one transform that \<^verbatim>\<open>onDrop\<close> awaits is in flight, and while it is,
  \<^verbatim>\<open>readingFile\<close> is set (so further drops are ignored).\<close>

theorem dz_one_awaited:
  assumes "dz_reach ty res s"
  shows "length (filter snd (dz_inflight s)) \<le> 1 \<and> (filter snd (dz_inflight s) \<noteq> [] \<longrightarrow> dz_readingFile s)"
  using dz_reach_inv [OF assms] by (simp add: dz_inv_def)

text \<open>C35: The decompress zone restores the name the compress zone gave, for every name that
  does not contain \<^verbatim>\<open>".compress"\<close>; \<^verbatim>\<open>replace\<close> removes the first occurrence, not the
  suffix, so a name with \<^verbatim>\<open>".compress"\<close> inside comes back with that occurrence moved to
  the end.\<close>

theorem output_name_roundtrip:
  assumes "\<not> sublist ''.compress'' a"
  shows "output_name ''decompress'' (output_name ''compress'' a) = a \<and>
         output_name ''decompress'' (output_name ''compress'' (a @ ''.compress'' @ b)) = a @ b @ ''.compress''"
  using replace_first_compress [OF assms, of "[]"] replace_first_compress [OF assms, of "b @ ''.compress''"]
  by (simp add: output_name_def)

text \<open>C36: A file item whose \<^verbatim>\<open>getAsFile()\<close> is null makes \<^verbatim>\<open>onDrop\<close> throw
  \<^verbatim>\<open>"File Null!"\<close> (after the alert); items of other kinds before it are skipped, and the
  zone is left as it was but for the hover flag.\<close>

theorem dz_null_file_throws:
  assumes "\<not> dz_readingFile s" "\<forall>i \<in> set its. \<not> is_file_item i"
  shows "onDrop s (DT_Items (its @ Item_file None # rest)) = (s\<lparr>dz_isHover := False\<rparr>, Some NullFile)"
  using assms by (simp add: onDrop_def find_first_file)

text \<open>C38: The files branch of \<^verbatim>\<open>onDrop\<close> does not serialise: on an idle zone two drops in a
  row both start a transform, and \<^verbatim>\<open>readingFile\<close> is never seen set.\<close>

theorem dz_files_concurrent:
  assumes "\<not> dz_readingFile s"
  shows "dz_inflight (fst (onDrop (fst (onDrop s (DT_Files (f # fs)))) (DT_Files (g # gs)))) =
           dz_inflight s @ [(f, False), (g, False)] \<and>
         \<not> dz_readingFile (fst (onDrop (fst (onDrop s (DT_Files (f # fs)))) (DT_Files (g # gs))))"
  using assms by (simp add: onDrop_def)

section \<open>Witnesses\<close>

theorem dz_one_awaited_witness:
  "length (filter snd (dz_inflight (fst (onDrop dz_init (DT_Items [Item_other, Item_file (Some small_file)]))))) \<le> 1 \<and>
   dz_readingFile (fst (onDrop dz_init (DT_Items [Item_other, Item_file (Some small_file)])))"
proof -
  have "dz_reach ''compress'' (transformFile_outcome copy_codec) dz_init" by (simp add: dz_reach_def)
  then have "dz_reach ''compress'' (transformFile_outcome copy_codec)
               (fst (onDrop dz_init (DT_Items [Item_other, Item_file (Some small_file)])))"
    by (rule dz_reach_drop)
  from dz_one_awaited [OF this] show ?thesis by (simp add: onDrop_def dz_init_def)
qed

theorem output_name_roundtrip_witness:
  "output_name ''decompress'' (output_name ''compress'' ''a'') = ''a'' \<and>
   output_name ''decompress'' (output_name ''compress'' ''a.compress.txt'') = ''a.txt.compress''"
proof -
  have "\<not> sublist ''.compress'' ''a''" by (auto dest: sublist_length_le)
  then have "output_name ''decompress'' (output_name ''compress'' ''a'') = ''a'' \<and>
             output_name ''decompress'' (output_name ''compress'' (''a'' @ ''.compress'' @ ''.txt'')) =
             ''a'' @ ''.txt'' @ ''.compress''"
    by (rule output_name_roundtrip)
  then show ?thesis by simp
qed

theorem dz_null_file_throws_witness:
  "onDrop dz_init (DT_Items [Item_other, Item_file None, Item_file (Some small_file)]) =
   (dz_init\<lparr>dz_isHover := False\<rparr>, Some NullFile)"
  using dz_null_file_throws [of dz_init "[Item_other]" "[Item_file (Some small_file)]"]
  by (simp add: dz_init_def)

theorem dz_files_concurrent_witness:
  "dz_inflight (fst (onDrop (fst (onDrop dz_init (DT_Files [small_file]))) (DT_Files [empty_file]))) =
     [(small_file, False), (empty_file, False)]"
  using dz_files_concurrent [of dz_init small_file "[]" empty_file "[]"] by (simp add: dz_init_def)

end
