(* ===== verification/View.thy ===== *)
theory View
  imports App
begin

text \<open>
  What App.tsx puts on the page: the window listeners that keep the browser from opening a
  dropped file (App.tsx 12-17), \<^verbatim>\<open>ProgressBar\<close>, the element \<^verbatim>\<open>DropZone\<close> renders from
  its state, and \<^verbatim>\<open>App.render\<close> with its two zones; and \<^verbatim>\<open>saveBlobAsFile\<close>, which
  downloads a result through a hidden link, on a model of the document: its body, the
  object URLs created, and the downloads started.
\<close>

section \<open>Rendering\<close>

text \<open>A JSX element: a tag, its props (strings, numbers, and event handlers by name), and
  its children; \<^verbatim>\<open>null\<close> children render nothing and are left out.\<close>

datatype attr = A_str string | A_num real | A_handler string

datatype vnode = Elem string "(string \<times> attr) list" "vnode list" | Txt string

text \<open>The window's \<^verbatim>\<open>dragover\<close> and \<^verbatim>\<open>drop\<close> listeners call \<^verbatim>\<open>preventDefault()\<close>: for
  these two event types the browser does not open the dropped file.\<close>

definition window_prevents_default :: "string \<Rightarrow> bool" where
  "window_prevents_default ty \<longleftrightarrow> ty = ''dragover'' \<or> ty = ''drop''"

definition ProgressBar :: "real \<Rightarrow> vnode" where
  "ProgressBar p =
     Elem ''progress'' [(''className'', A_str ''progress-bar''), (''value'', A_num p), (''max'', A_str ''100'')] []"

definition dz_className :: "dz_state \<Rightarrow> string" where
  "dz_className s =
     ''drop-zone flex-item flex-container'' @ (if dz_isHover s then '' hover'' else []) @
     (if dz_readingFile s then '' reading'' else [])"

text \<open>The element \<^verbatim>\<open>DropZone\<close> returns, for its children and its state.\<close>

definition dz_render :: "vnode list \<Rightarrow> dz_state \<Rightarrow> vnode" where
  "dz_render children s =
     Elem ''div''
       [(''className'', A_str (dz_className s)), (''onDrop'', A_handler ''onDrop''),
        (''onDragEnter'', A_handler ''onDragEnter''), (''onDragExit'', A_handler ''onDragExit''),
        (''onDragLeave'', A_handler ''onDragExit'')]
       ((if 0 < dz_progress s then [ProgressBar (dz_progress s)] else []) @
        [Elem ''div'' [(''className'', A_str ''flex-item'')]
           (if \<not> dz_readingFile s then children else [Txt ''reading file ...''])])"

text \<open>The \<^verbatim>\<open>App\<close> component's state (set by its constructor and never read) and its
  \<^verbatim>\<open>render\<close>, given the states of its two drop zones.\<close>

record app_state =
  app_name :: string

definition app_init :: app_state where
  "app_init = \<lparr>app_name = ''React''\<rparr>"

definition github_url :: string where
  "github_url = ''https://github.com/jo32/demo-browser-compress''"

definition app_render :: "app_state \<Rightarrow> dz_state \<Rightarrow> dz_state \<Rightarrow> vnode list" where
  "app_render a c d =
     [Elem ''div'' [(''className'', A_str ''container flex-container'')]
        [dz_render [Txt ''Drop Here to '', Elem ''b'' [] [Txt ''Compress'']] c,
         dz_render [Txt ''Drop Here to '', Elem ''b'' [] [Txt ''Decompress'']] d],
      Elem ''div'' [(''className'', A_str ''footer'')]
        [Txt ''fork me on github: '', Elem ''a'' [(''href'', A_str github_url)] [Txt github_url]]]"

section \<open>Saving a result\<close>

text \<open>A node of the body: a link with its \<^verbatim>\<open>download\<close> name, the object URL of its
  \<^verbatim>\<open>href\<close> (an index into the URLs created) and whether it is hidden, or any other node.\<close>

datatype dom_node = Anchor string nat bool | Other_node nat

text \<open>The document: the body's children, the blobs behind the object URLs created so far
  (\<^verbatim>\<open>URL.createObjectURL\<close> returns the index; nothing calls \<^verbatim>\<open>revokeObjectURL\<close>), and the
  downloads started, by file name and contents.\<close>

record dom =
  dom_body :: "dom_node list"
  dom_urls :: "bytes list"
  dom_downloads :: "(string \<times> bytes) list"

text \<open>\<^verbatim>\<open>saveBlobAsFile(fileName, blob)\<close>: create a hidden link to a new object URL, append it
  to the body, and \<^verbatim>\<open>click()\<close> it. The click first runs the link's \<^verbatim>\<open>onclick\<close>, which
  removes the link from the body, then the link's activation, which downloads the blob
  behind its URL under its \<^verbatim>\<open>download\<close> name.\<close>

definition saveBlobAsFile :: "dom \<Rightarrow> string \<Rightarrow> bytes \<Rightarrow> dom" where
  "saveBlobAsFile d fileName blob =
     (let url = length (dom_urls d);
          a = Anchor fileName url True;
          d1 = d\<lparr>dom_urls := dom_urls d @ [blob], dom_body := dom_body d @ [a]\<rparr>;
          d2 = d1\<lparr>dom_body := remove1 a (dom_body d1)\<rparr>
      in d2\<lparr>dom_downloads := dom_downloads d2 @ [(fileName, dom_urls d2 ! url)]\<rparr>)"

text \<open>The end of \<^verbatim>\<open>transformFile\<close>: \<^verbatim>\<open>new Blob(resp)\<close> concatenates the buffers \<^verbatim>\<open>done()\<close>
  resolved with, and the blob is saved under the output name.\<close>

definition transformFile_save :: "string \<Rightarrow> drop_file \<Rightarrow> bytes list \<Rightarrow> dom \<Rightarrow> dom" where
  "transformFile_save ty f resp d = saveBlobAsFile d (output_name ty (f_name f)) (concat resp)"

text \<open>Every link in the body points to an object URL that exists.\<close>

fun anchor_ok :: "nat \<Rightarrow> dom_node \<Rightarrow> bool" where
  "anchor_ok n (Anchor _ u _) = (u < n)"
| "anchor_ok n (Other_node _) = True"

definition dom_wf :: "dom \<Rightarrow> bool" where
  "dom_wf d \<longleftrightarrow> list_all (anchor_ok (length (dom_urls d))) (dom_body d)"

definition page_dom :: dom where
  "page_dom = \<lparr>dom_body = [Other_node 0], dom_urls = [], dom_downloads = []\<rparr>"

section \<open>Lemmas\<close>

lemma anchor_ok_mono: "anchor_ok n x \<Longrightarrow> n \<le> m \<Longrightarrow> anchor_ok m x"
  by (cases x) auto

lemma fresh_anchor_not_in_body:
  "dom_wf d \<Longrightarrow> Anchor n (length (dom_urls d)) h \<notin> set (dom_body d)"
  by (auto simp: dom_wf_def list_all_iff)

lemma saveBlobAsFile_fields:
  assumes "dom_wf d"
  shows "dom_body (saveBlobAsFile d n b) = dom_body d \<and>
         dom_urls (saveBlobAsFile d n b) = dom_urls d @ [b] \<and>
         dom_downloads (saveBlobAsFile d n b) = dom_downloads d @ [(n, b)]"
  using fresh_anchor_not_in_body [OF assms, of n True]
  by (simp add: saveBlobAsFile_def Let_def remove1_append)

lemma dom_wf_saveBlobAsFile:
  "dom_wf d \<Longrightarrow> dom_wf (saveBlobAsFile d n b)"
  using saveBlobAsFile_fields [of d n b]
  by (auto simp: dom_wf_def list_all_iff intro: anchor_ok_mono)

lemma dz_render_reading:
  "dz_readingFile s \<Longrightarrow>
   dz_render ch s =
     Elem ''div''
       [(''className'', A_str (dz_className s)), (''onDrop'', A_handler ''onDrop''),
        (''onDragEnter'', A_handler ''onDragEnter''), (''onDragExit'', A_handler ''onDragExit''),
        (''onDragLeave'', A_handler ''onDragExit'')]
       ((if 0 < dz_progress s then [ProgressBar (dz_progress s)] else []) @
        [Elem ''div'' [(''className'', A_str ''flex-item'')] [Txt ''reading file ...'']])"
  by (simp add: dz_render_def)

section \<open>Properties\<close>

text \<open>C34: An empty or unreadable file locks the compress zone for good: after it is dropped
  on an idle zone, \<^verbatim>\<open>readingFile\<close> stays set in every later state, so every later drop is
  ignored, and the zone shows "reading file ..." in place of its children for good. For an empty file the transfer never settles \<^verbatim>\<open>done()\<close>; for an unreadable
  one \<^verbatim>\<open>transformFile\<close> rejects and \<^verbatim>\<open>setReadingFile(false)\<close> is skipped.\<close>

theorem dz_empty_file_locks:
  assumes reach: "dz_reach ''compress'' (transformFile_outcome cx) s" and idle: "\<not> dz_readingFile s"
    and f: "f_data f = None \<or> f_data f = Some []"
    and later: "(dz_step ''compress'' (transformFile_outcome cx))\<^sup>*\<^sup>*
                  (fst (onDrop s (DT_Items [Item_file (Some f)]))) s'"
  shows "dz_readingFile s' \<and> fst (onDrop s' d) = s'\<lparr>dz_isHover := False\<rparr> \<and>
         (\<exists>as pb. dz_render ch s' = Elem ''div'' as (pb @ [Elem ''div'' [(''className'', A_str ''flex-item'')] [Txt ''reading file ...'']]))"
proof -
  have "filter snd (dz_inflight s) = []" using dz_reach_inv [OF reach] idle by (simp add: dz_inv_def)
  then have old: "\<forall>x \<in> set (dz_inflight s). \<not> snd x" by (simp add: filter_empty_conv)
  have never: "\<forall>cs. transformFile_outcome cx f \<noteq> Resolved cs"
    using f
  proof
    assume "f_data f = None"
    then show ?thesis by (simp add: transformFile_outcome_def readFileAsArrayBuffer_def)
  next
    assume e: "f_data f = Some []"
    obtain p where "cpipe_run cx app_opts [] = Some (Inr p)" "wp_outcome (cp_wp p) = Pending"
      using cpipe_run_empty by blast
    then show ?thesis using e by (simp add: transformFile_outcome_def readFileAsArrayBuffer_def)
  qed
  have "dz_locked (transformFile_outcome cx) (fst (onDrop s (DT_Items [Item_file (Some f)])))"
    using idle old never by (auto simp: dz_locked_def onDrop_def)
  then have "dz_locked (transformFile_outcome cx) s'" using dz_locked_steps [OF later] by blast
  then show ?thesis by (simp add: dz_locked_def onDrop_def dz_render_reading)
qed

text \<open>C11: \<^verbatim>\<open>saveBlobAsFile\<close> at the end of \<^verbatim>\<open>transformFile\<close> downloads the concatenated
  result under the output name and leaves the body as it was (the link removes itself on
  click), but the object URL it created is never revoked: every saved result adds a URL,
  and with it the blob, that lives as long as the page.\<close>

theorem transformFile_save_leaks_url:
  assumes "dom_wf d"
  shows "dom_body (transformFile_save ty f resp d) = dom_body d \<and>
         dom_downloads (transformFile_save ty f resp d) = dom_downloads d @ [(output_name ty (f_name f), concat resp)] \<and>
         dom_urls (transformFile_save ty f resp d) = dom_urls d @ [concat resp] \<and>
         dom_wf (transformFile_save ty f resp d)"
  using saveBlobAsFile_fields [OF assms] dom_wf_saveBlobAsFile [OF assms]
  by (simp add: transformFile_save_def)

section \<open>Witnesses\<close>

theorem dz_empty_file_locks_witness:
  "dz_readingFile (fst (onDrop dz_init (DT_Items [Item_file (Some empty_file)]))) \<and>
   fst (onDrop (fst (onDrop dz_init (DT_Items [Item_file (Some empty_file)]))) (DT_Items [Item_file (Some small_file)])) =
     (fst (onDrop dz_init (DT_Items [Item_file (Some empty_file)])))\<lparr>dz_isHover := False\<rparr> \<and>
   (\<exists>as pb. dz_render [] (fst (onDrop dz_init (DT_Items [Item_file (Some empty_file)]))) =
      Elem ''div'' as (pb @ [Elem ''div'' [(''className'', A_str ''flex-item'')] [Txt ''reading file ...'']]))"
  by (rule dz_empty_file_locks [of copy_codec dz_init empty_file _ _ "[]"])
     (simp_all add: dz_reach_def dz_init_def empty_file_def)

theorem transformFile_save_leaks_url_witness:
  "dom_body (transformFile_save ''compress'' small_file [[1], [2]] page_dom) = [Other_node 0] \<and>
   dom_downloads (transformFile_save ''compress'' small_file [[1], [2]] page_dom) = [(''a.txt.compress'', [1, 2])] \<and>
   dom_urls (transformFile_save ''compress'' small_file [[1], [2]] page_dom) = [[1, 2]]"
proof -
  have "dom_wf page_dom" by (simp add: dom_wf_def page_dom_def)
  from transformFile_save_leaks_url [OF this, of "''compress''" small_file "[[1], [2]]"]
  show ?thesis by (simp add: page_dom_def small_file_def output_name_def)
qed

end
