(* ===== verification/Ack.thy ===== *)
theory Ack
  imports Cond
begin

text \<open>
  The second lock/condition pair of the transfer: the worker's \<^verbatim>\<open>writeLock\<close> and
  \<^verbatim>\<open>writeCond\<close> are the proxy's \<^verbatim>\<open>readLock\<close> and \<^verbatim>\<open>readCond\<close> (Channel). Per chunk the
  worker's push loop (lib.ts 339-373) takes the lock, copies the chunk into the proxy's read
  buffer, posts \<^verbatim>\<open>["push", n]\<close>, waits on the condition (\<^verbatim>\<open>Cond.prototype.wait\<close>) and
  releases the lock; the proxy answers each message with \<^verbatim>\<open>onReceived\<close> (lib.ts 212-235):
  \<^verbatim>\<open>asyncLock\<close>, a status check with an early return, the copy out of the buffer,
  \<^verbatim>\<open>notifyOne\<close> and \<^verbatim>\<open>unlock\<close>. The lock is the abstract owner of Cond (justified by C3);
  the worker's steps on the other pair, between releasing the lock and taking it for the
  next chunk, are left out, which only adds behaviours. \<open>ak_working\<close> is whether the
  proxy's status is \<open>WORKING\<close> when the messages arrive; \<open>ak_sent\<close> and \<open>ak_copied\<close> count the
  chunks written and copied out (ghost fields).
\<close>

section \<open>State and steps\<close>

datatype wpc =
    W_Lock
  | W_Copy
  | W_Load
  | W_Unlock i32
  | W_Wait i32
  | W_Blocked i32
  | W_Relock
  | W_Release

datatype ppc = P_Idle | P_Lock | P_Check | P_Copy | P_Add | P_Notify | P_Unlock

record ack_sys =
  ak_owner :: "party option"
  ak_seq :: i32
  ak_wpc :: wpc
  ak_ppc :: ppc
  ak_parked :: bool
  ak_msgs :: nat
  ak_working :: bool
  ak_sent :: nat
  ak_copied :: nat

definition ack_init :: "bool \<Rightarrow> ack_sys" where
  "ack_init working =
     \<lparr>ak_owner = None, ak_seq = 0, ak_wpc = W_Lock, ak_ppc = P_Idle, ak_parked = False,
      ak_msgs = 0, ak_working = working, ak_sent = 0, ak_copied = 0\<rparr>"

text \<open>
  The worker: \<open>W_Lock\<close> is \<^verbatim>\<open>writeLock.lock()\<close>; \<open>W_Copy\<close> is \<^verbatim>\<open>writeView.set(readView)\<close> and
  \<^verbatim>\<open>postMessage(["push", readLength])\<close>; \<open>W_Load\<close>, \<open>W_Unlock v\<close>, \<open>W_Wait v\<close> and
  \<open>W_Relock\<close> are the load, unlock, \<^verbatim>\<open>Atomics.wait\<close> and lock of \<^verbatim>\<open>writeCond.wait()\<close>
  (\<open>W_Blocked v\<close> is parked); \<open>W_Release\<close> is \<^verbatim>\<open>writeLock.unlock()\<close>.
\<close>

definition worker_step :: "ack_sys \<Rightarrow> ack_sys option" where
  "worker_step s =
     (case ak_wpc s of
        W_Lock \<Rightarrow> if ak_owner s = None then Some (s\<lparr>ak_owner := Some Worker, ak_wpc := W_Copy\<rparr>) else None
      | W_Copy \<Rightarrow> Some (s\<lparr>ak_wpc := W_Load, ak_msgs := Suc (ak_msgs s), ak_sent := Suc (ak_sent s)\<rparr>)
      | W_Load \<Rightarrow> Some (s\<lparr>ak_wpc := W_Unlock (ak_seq s)\<rparr>)
      | W_Unlock v \<Rightarrow> Some (s\<lparr>ak_owner := None, ak_wpc := W_Wait v\<rparr>)
      | W_Wait v \<Rightarrow>
          if ak_seq s = v then Some (s\<lparr>ak_wpc := W_Blocked v, ak_parked := True\<rparr>)
          else Some (s\<lparr>ak_wpc := W_Relock\<rparr>)
      | W_Blocked v \<Rightarrow> None
      | W_Relock \<Rightarrow> if ak_owner s = None then Some (s\<lparr>ak_owner := Some Worker, ak_wpc := W_Release\<rparr>) else None
      | W_Release \<Rightarrow> Some (s\<lparr>ak_owner := None, ak_wpc := W_Lock\<rparr>))"

text \<open>
  The proxy: \<open>P_Idle\<close> takes the next \<^verbatim>\<open>"push"\<close> message; \<open>P_Lock\<close> is
  \<^verbatim>\<open>readLock.asyncLock()\<close>; \<open>P_Check\<close> is the status test, whose early return leaves the
  lock held; \<open>P_Copy\<close> copies the chunk out; \<open>P_Add\<close> and \<open>P_Notify\<close> are the
  \<^verbatim>\<open>Atomics.add\<close> and \<^verbatim>\<open>Atomics.notify(.., 1)\<close> of \<^verbatim>\<open>readCond.notifyOne()\<close>; \<open>P_Unlock\<close>
  is \<^verbatim>\<open>readLock.unlock()\<close>.
\<close>

definition proxy_step :: "ack_sys \<Rightarrow> ack_sys option" where
  "proxy_step s =
     (case ak_ppc s of
        P_Idle \<Rightarrow> if 0 < ak_msgs s then Some (s\<lparr>ak_ppc := P_Lock, ak_msgs := ak_msgs s - 1\<rparr>) else None
      | P_Lock \<Rightarrow> if ak_owner s = None then Some (s\<lparr>ak_owner := Some Proxy, ak_ppc := P_Check\<rparr>) else None
      | P_Check \<Rightarrow> Some (s\<lparr>ak_ppc := (if ak_working s then P_Copy else P_Idle)\<rparr>)
      | P_Copy \<Rightarrow> Some (s\<lparr>ak_ppc := P_Add, ak_copied := Suc (ak_copied s)\<rparr>)
      | P_Add \<Rightarrow> Some (s\<lparr>ak_ppc := P_Notify, ak_seq := ak_seq s + 1\<rparr>)
      | P_Notify \<Rightarrow>
          if ak_parked s then Some (s\<lparr>ak_ppc := P_Unlock, ak_parked := False, ak_wpc := W_Relock\<rparr>)
          else Some (s\<lparr>ak_ppc := P_Unlock\<rparr>)
      | P_Unlock \<Rightarrow> Some (s\<lparr>ak_owner := None, ak_ppc := P_Idle\<rparr>))"

fun ack_exec :: "party \<Rightarrow> ack_sys \<Rightarrow> ack_sys option" where
  "ack_exec Worker s = worker_step s"
| "ack_exec Proxy s = proxy_step s"

inductive ack_reach :: "bool \<Rightarrow> ack_sys \<Rightarrow> bool" for working where
  init: "ack_reach working (ack_init working)"
| step: "ack_reach working s \<Longrightarrow> ack_exec t s = Some s' \<Longrightarrow> ack_reach working s'"

section \<open>Invariants\<close>

fun w_holds :: "wpc \<Rightarrow> bool" where
  "w_holds W_Copy = True"
| "w_holds W_Load = True"
| "w_holds (W_Unlock v) = True"
| "w_holds W_Release = True"
| "w_holds _ = False"

fun p_holds :: "ppc \<Rightarrow> bool" where
  "p_holds P_Idle = False"
| "p_holds P_Lock = False"
| "p_holds _ = True"

text \<open>The proxy handles a message whose chunk it has not copied yet.\<close>

fun p_pending :: "ppc \<Rightarrow> bool" where
  "p_pending P_Lock = True"
| "p_pending P_Check = True"
| "p_pending P_Copy = True"
| "p_pending _ = False"

text \<open>Who holds the lock, read off the two program counters.\<close>

definition owner_of :: "wpc \<Rightarrow> ppc \<Rightarrow> party option" where
  "owner_of w p = (if w_holds w then Some Worker else if p_holds p then Some Proxy else None)"

fun is_blocked :: "wpc \<Rightarrow> bool" where
  "is_blocked (W_Blocked v) = True"
| "is_blocked _ = False"

fun before_copy :: "ppc \<Rightarrow> bool" where
  "before_copy P_Idle = True"
| "before_copy P_Lock = True"
| "before_copy P_Check = True"
| "before_copy P_Copy = True"
| "before_copy _ = False"

fun after_add :: "ppc \<Rightarrow> bool" where
  "after_add P_Notify = True"
| "after_add P_Unlock = True"
| "after_add P_Idle = True"
| "after_add _ = False"

text \<open>
  How far the proxy can be for each point of the worker, given whether a chunk is
  outstanding (written and not yet copied) and the sequence word: while the worker waits
  with the value \<open>v\<close>, the word still holds \<open>v\<close> until the proxy's \<^verbatim>\<open>Atomics.add\<close>.
\<close>

fun phase_ok :: "wpc \<Rightarrow> ppc \<Rightarrow> bool \<Rightarrow> i32 \<Rightarrow> bool" where
  "phase_ok W_Lock p out q \<longleftrightarrow> p = P_Idle \<and> \<not> out"
| "phase_ok W_Copy p out q \<longleftrightarrow> p = P_Idle \<and> \<not> out"
| "phase_ok W_Release p out q \<longleftrightarrow> p = P_Idle \<and> \<not> out"
| "phase_ok W_Relock p out q \<longleftrightarrow> after_add p \<and> \<not> out"
| "phase_ok W_Load p out q \<longleftrightarrow> (p = P_Idle \<or> p = P_Lock) \<and> out"
| "phase_ok (W_Unlock v) p out q \<longleftrightarrow> (p = P_Idle \<or> p = P_Lock) \<and> out \<and> q = v"
| "phase_ok (W_Wait v) p out q \<longleftrightarrow>
     (if out then before_copy p \<and> q = v else p = P_Add \<and> q = v \<or> after_add p \<and> q = v + 1)"
| "phase_ok (W_Blocked v) p out q \<longleftrightarrow>
     (if out then before_copy p \<and> q = v else p = P_Add \<and> q = v \<or> p = P_Notify \<and> q = v + 1)"

text \<open>
  With the status \<open>WORKING\<close>: the lock owner, where each written chunk is (queued as a
  message, being handled, or copied; at most one is outstanding), the parked flag, and the
  phase.
\<close>

definition ack_inv :: "ack_sys \<Rightarrow> bool" where
  "ack_inv s \<longleftrightarrow>
     ak_working s \<and>
     ak_owner s = owner_of (ak_wpc s) (ak_ppc s) \<and> \<not> (w_holds (ak_wpc s) \<and> p_holds (ak_ppc s)) \<and>
     ak_sent s = ak_copied s + ak_msgs s + (if p_pending (ak_ppc s) then 1 else 0) \<and>
     (ak_sent s = ak_copied s \<or> ak_sent s = Suc (ak_copied s)) \<and>
     ak_parked s = is_blocked (ak_wpc s) \<and>
     phase_ok (ak_wpc s) (ak_ppc s) (ak_sent s = Suc (ak_copied s)) (ak_seq s)"

fun stuck_w :: "wpc \<Rightarrow> bool" where
  "stuck_w W_Load = True"
| "stuck_w (W_Unlock v) = (v = 0)"
| "stuck_w (W_Wait v) = (v = 0)"
| "stuck_w (W_Blocked v) = (v = 0)"
| "stuck_w _ = False"

text \<open>With any other status: the sequence word never moves, no chunk is copied, and the
  worker never gets past the wait for its first chunk.\<close>

definition ack_stuck_inv :: "ack_sys \<Rightarrow> bool" where
  "ack_stuck_inv s \<longleftrightarrow>
     \<not> ak_working s \<and> ak_copied s = 0 \<and> ak_seq s = 0 \<and> before_copy (ak_ppc s) \<and> ak_ppc s \<noteq> P_Copy \<and>
     (ak_sent s = 0 \<and> ak_msgs s = 0 \<and> ak_ppc s = P_Idle \<and> (ak_wpc s = W_Lock \<or> ak_wpc s = W_Copy) \<or>
      ak_sent s = 1 \<and> stuck_w (ak_wpc s))"

text \<open>The state the early return leads to: the proxy went back to its queue still holding
  \<^verbatim>\<open>readLock\<close>, and the worker is parked in \<^verbatim>\<open>writeCond.wait()\<close> for its first chunk.\<close>

definition ack_dead :: ack_sys where
  "ack_dead = \<lparr>ak_owner = Some Proxy, ak_seq = 0, ak_wpc = W_Blocked 0, ak_ppc = P_Idle,
     ak_parked = True, ak_msgs = 0, ak_working = False, ak_sent = 1, ak_copied = 0\<rparr>"

text \<open>One step of either side, and a rank that every step decreases until the worker
  reaches its final \<^verbatim>\<open>writeLock.unlock()\<close> of the round: first how far the worker is from
  it, then how far the proxy is from being idle with no message queued.\<close>

definition ack_moves :: "ack_sys \<Rightarrow> ack_sys \<Rightarrow> bool" where
  "ack_moves s s' \<longleftrightarrow> worker_step s = Some s' \<or> proxy_step s = Some s'"

fun wrank :: "wpc \<Rightarrow> nat" where
  "wrank W_Lock = 7"
| "wrank W_Copy = 6"
| "wrank W_Load = 5"
| "wrank (W_Unlock v) = 4"
| "wrank (W_Wait v) = 3"
| "wrank (W_Blocked v) = 2"
| "wrank W_Relock = 1"
| "wrank W_Release = 0"

fun prank :: "ppc \<Rightarrow> nat \<Rightarrow> nat" where
  "prank P_Idle m = (if m = 0 then 0 else 7)"
| "prank P_Lock m = 6"
| "prank P_Check m = 5"
| "prank P_Copy m = 4"
| "prank P_Add m = 3"
| "prank P_Notify m = 2"
| "prank P_Unlock m = 1"

definition ack_rank :: "ack_sys \<Rightarrow> nat \<times> nat" where
  "ack_rank s = (wrank (ak_wpc s), prank (ak_ppc s) (ak_msgs s))"

section \<open>Preservation\<close>

lemma ack_inv_worker:
  "ack_inv s \<Longrightarrow> worker_step s = Some s' \<Longrightarrow> ack_inv s'"
  by (cases "ak_wpc s"; cases "ak_ppc s"; clarsimp simp: ack_inv_def worker_step_def owner_of_def split: if_splits)

lemma ack_inv_proxy:
  "ack_inv s \<Longrightarrow> proxy_step s = Some s' \<Longrightarrow> ack_inv s'"
  by (cases "ak_ppc s"; cases "ak_wpc s"; clarsimp simp: ack_inv_def proxy_step_def owner_of_def split: if_splits)

lemma ack_stuck_worker:
  "ack_stuck_inv s \<Longrightarrow> worker_step s = Some s' \<Longrightarrow> ack_stuck_inv s'"
  by (cases "ak_wpc s"; clarsimp simp: ack_stuck_inv_def worker_step_def split: if_splits)

lemma ack_stuck_proxy:
  "ack_stuck_inv s \<Longrightarrow> proxy_step s = Some s' \<Longrightarrow> ack_stuck_inv s'"
  by (cases "ak_ppc s"; clarsimp simp: ack_stuck_inv_def proxy_step_def split: if_splits)

lemma ack_reach_inv:
  "ack_reach True s \<Longrightarrow> ack_inv s"
proof (induction rule: ack_reach.induct)
  case init
  show ?case by (simp add: ack_inv_def ack_init_def owner_of_def)
next
  case (step s t s')
  then show ?case by (cases t) (auto intro: ack_inv_worker ack_inv_proxy)
qed

lemma ack_reach_stuck:
  "ack_reach False s \<Longrightarrow> ack_stuck_inv s"
proof (induction rule: ack_reach.induct)
  case init
  show ?case by (simp add: ack_stuck_inv_def ack_init_def)
next
  case (step s t s')
  then show ?case by (cases t) (auto intro: ack_stuck_worker ack_stuck_proxy)
qed
section \<open>Properties\<close>

lemma ack_exec_some:
  "(\<exists>t s'. ack_exec t s = Some s') \<longleftrightarrow> worker_step s \<noteq> None \<or> proxy_step s \<noteq> None"
  by (metis ack_exec.simps not_None_eq party.exhaust)

text \<open>C18: the worker never overwrites the proxy's read buffer before the previous chunk
  was copied out: when it writes, every chunk is copied and the proxy is idle, and at most
  one chunk is ever outstanding.\<close>

theorem ack_no_overwrite:
  assumes "ack_reach True s"
  shows "(ak_wpc s = W_Copy \<longrightarrow> ak_sent s = ak_copied s \<and> ak_ppc s = P_Idle) \<and>
         ak_copied s \<le> ak_sent s \<and> ak_sent s \<le> Suc (ak_copied s)"
  using ack_reach_inv [OF assms] by (cases "ak_wpc s") (auto simp: ack_inv_def)

theorem ack_no_overwrite_witness:
  "ak_sent (ack_init True\<lparr>ak_owner := Some Worker, ak_wpc := W_Copy\<rparr>) =
     ak_copied (ack_init True\<lparr>ak_owner := Some Worker, ak_wpc := W_Copy\<rparr>) \<and>
   ak_ppc (ack_init True\<lparr>ak_owner := Some Worker, ak_wpc := W_Copy\<rparr>) = P_Idle"
proof -
  have "ack_reach True (ack_init True\<lparr>ak_owner := Some Worker, ak_wpc := W_Copy\<rparr>)"
    by (rule ack_reach.step [OF ack_reach.init, where t = Worker]) (simp add: worker_step_def ack_init_def)
  from ack_no_overwrite [OF this] show ?thesis by simp
qed

lemma ack_inv_can_step:
  "ack_inv s \<Longrightarrow> worker_step s \<noteq> None \<or> proxy_step s \<noteq> None"
  by (cases "ak_wpc s"; cases "ak_ppc s")
     (auto simp: ack_inv_def worker_step_def proxy_step_def owner_of_def)

lemma ack_worker_rank:
  "ack_inv s \<Longrightarrow> worker_step s = Some s' \<Longrightarrow> ak_wpc s \<noteq> W_Release \<Longrightarrow>
   (ack_rank s', ack_rank s) \<in> less_than <*lex*> less_than"
  by (cases "ak_wpc s"; clarsimp simp: ack_rank_def worker_step_def split: if_splits)

lemma ack_proxy_rank:
  "ack_inv s \<Longrightarrow> proxy_step s = Some s' \<Longrightarrow>
   (ack_rank s', ack_rank s) \<in> less_than <*lex*> less_than"
  by (cases "ak_ppc s"; cases "ak_wpc s"; clarsimp simp: ack_rank_def proxy_step_def ack_inv_def owner_of_def split: if_splits)

lemma ack_moves_reach: "ack_reach w s \<Longrightarrow> ack_moves s s' \<Longrightarrow> ack_reach w s'"
  unfolding ack_moves_def by (metis ack_exec.simps ack_reach.step)

lemma ack_moves_sent: "ack_moves s s' \<Longrightarrow> ak_sent s \<le> ak_sent s'"
  unfolding ack_moves_def
  by (cases "ak_wpc s"; cases "ak_ppc s"; auto simp: worker_step_def proxy_step_def split: if_splits)

lemma ack_round_completes_gen:
  "ack_reach True s \<Longrightarrow> \<exists>s'. ack_moves\<^sup>*\<^sup>* s s' \<and> ak_wpc s' = W_Release"
proof (induction "ack_rank s" arbitrary: s rule: wf_induct_rule [OF wf_lex_prod [OF wf_less_than wf_less_than]])
  case (1 s)
  show ?case
  proof (cases "ak_wpc s = W_Release")
    case True
    then show ?thesis by blast
  next
    case False
    have inv: "ack_inv s" by (rule ack_reach_inv [OF 1(2)])
    obtain s' where m: "ack_moves s s'"
      using ack_inv_can_step [OF inv] unfolding ack_moves_def by blast
    have "(ack_rank s', ack_rank s) \<in> less_than <*lex*> less_than"
      using m ack_worker_rank [OF inv _ False] ack_proxy_rank [OF inv] unfolding ack_moves_def by blast
    then obtain s'' where "ack_moves\<^sup>*\<^sup>* s' s''" "ak_wpc s'' = W_Release"
      using 1(1) ack_moves_reach [OF 1(2) m] by blast
    then show ?thesis using m by (meson converse_rtranclp_into_rtranclp)
  qed
qed

lemma ack_moves_steps_reach: "ack_moves\<^sup>*\<^sup>* s s' \<Longrightarrow> ack_reach w s \<Longrightarrow> ack_reach w s'"
  by (induction rule: rtranclp_induct) (auto intro: ack_moves_reach)

lemma ack_moves_steps_sent: "ack_moves\<^sup>*\<^sup>* s s' \<Longrightarrow> ak_sent s \<le> ak_sent s'"
  by (induction rule: rtranclp_induct) (auto dest: ack_moves_sent)

text \<open>C28: with the status \<open>WORKING\<close> the handshake never deadlocks and every round can
  complete: in every reachable state the worker or the proxy can take a step, and some
  run from it reaches the worker's final \<^verbatim>\<open>writeLock.unlock()\<close> of a round with every
  chunk written so far copied out.\<close>

theorem ack_round_completes:
  assumes "ack_reach True s"
  shows "(\<exists>t s'. ack_exec t s = Some s') \<and>
         (\<exists>s'. ack_moves\<^sup>*\<^sup>* s s' \<and> ak_wpc s' = W_Release \<and> ak_copied s' = ak_sent s' \<and> ak_sent s \<le> ak_sent s')"
proof
  show "\<exists>t s'. ack_exec t s = Some s'"
    using ack_inv_can_step [OF ack_reach_inv [OF assms]] unfolding ack_exec_some .
  obtain s' where m: "ack_moves\<^sup>*\<^sup>* s s'" and r: "ak_wpc s' = W_Release"
    using ack_round_completes_gen [OF assms] by blast
  have "ack_inv s'" by (rule ack_reach_inv [OF ack_moves_steps_reach [OF m assms]])
  then show "\<exists>s'. ack_moves\<^sup>*\<^sup>* s s' \<and> ak_wpc s' = W_Release \<and> ak_copied s' = ak_sent s' \<and> ak_sent s \<le> ak_sent s'"
    using m r ack_moves_steps_sent [OF m] by (auto simp: ack_inv_def)
qed

theorem ack_round_completes_witness:
  "(\<exists>t s'. ack_exec t (ack_init True) = Some s') \<and>
   (\<exists>s'. ack_moves\<^sup>*\<^sup>* (ack_init True) s' \<and> ak_wpc s' = W_Release \<and> ak_copied s' = ak_sent s' \<and>
         ak_sent (ack_init True) \<le> ak_sent s')"
  by (rule ack_round_completes [OF ack_reach.init])

lemma ack_dead_reach: "ack_reach False ack_dead"
proof -
  let ?s1 = "ack_init False\<lparr>ak_owner := Some Worker, ak_wpc := W_Copy\<rparr>"
  let ?s2 = "?s1\<lparr>ak_wpc := W_Load, ak_msgs := 1, ak_sent := 1\<rparr>"
  let ?s3 = "?s2\<lparr>ak_wpc := W_Unlock 0\<rparr>"
  let ?s4 = "?s3\<lparr>ak_owner := None, ak_wpc := W_Wait 0\<rparr>"
  let ?s5 = "?s4\<lparr>ak_ppc := P_Lock, ak_msgs := 0\<rparr>"
  let ?s6 = "?s5\<lparr>ak_owner := Some Proxy, ak_ppc := P_Check\<rparr>"
  let ?s7 = "?s6\<lparr>ak_ppc := P_Idle\<rparr>"
  have "ack_reach False ?s1"
    by (rule ack_reach.step [OF ack_reach.init, where t = Worker]) (simp add: worker_step_def ack_init_def)
  then have "ack_reach False ?s2"
    by (rule ack_reach.step [where t = Worker]) (simp add: worker_step_def ack_init_def)
  then have "ack_reach False ?s3"
    by (rule ack_reach.step [where t = Worker]) (simp add: worker_step_def ack_init_def)
  then have "ack_reach False ?s4"
    by (rule ack_reach.step [where t = Worker]) (simp add: worker_step_def ack_init_def)
  then have "ack_reach False ?s5"
    by (rule ack_reach.step [where t = Proxy]) (simp add: proxy_step_def ack_init_def)
  then have "ack_reach False ?s6"
    by (rule ack_reach.step [where t = Proxy]) (simp add: proxy_step_def ack_init_def)
  then have "ack_reach False ?s7"
    by (rule ack_reach.step [where t = Proxy]) (simp add: proxy_step_def ack_init_def)
  then show ?thesis
    by (rule ack_reach.step [where t = Worker]) (simp add: worker_step_def ack_init_def ack_dead_def)
qed

lemma ack_dead_stuck: "ack_exec t ack_dead = None"
  by (cases t) (simp_all add: worker_step_def proxy_step_def ack_dead_def)

text \<open>C37: when the proxy's status is not \<open>WORKING\<close>, \<^verbatim>\<open>onReceived\<close> returns early with
  \<^verbatim>\<open>readLock\<close> still held: no chunk is ever copied, the sequence word never moves, and the
  worker never gets past the wait for its first chunk; the witness reaches a state where
  neither side can move.\<close>

theorem ack_early_return_stuck:
  "ack_reach False s \<Longrightarrow> ak_copied s = 0 \<and> ak_seq s = 0 \<and> ak_sent s \<le> 1"
  using ack_reach_stuck [of s] by (auto simp: ack_stuck_inv_def)

theorem ack_early_return_stuck_witness:
  "ak_copied ack_dead = 0 \<and> ak_seq ack_dead = 0 \<and> ak_sent ack_dead \<le> 1 \<and>
   (\<forall>t. ack_exec t ack_dead = None)"
  using ack_early_return_stuck [OF ack_dead_reach] ack_dead_stuck by simp

end
