(* ===== verification/Entry.thy ===== *)
theory Entry
  imports Compress Serialize
begin

text \<open>
  The code that runs when the modules load, and the debugging output of lock.js: the
  embedding check and the \<^verbatim>\<open>Atomics.wake\<close> alias at the top of lock.js (lines 18-23), the
  installation guard of the \<^verbatim>\<open>waitNonblocking\<close> polyfill (lines 383-387), the
  \<^verbatim>\<open>toString\<close> methods of \<^verbatim>\<open>Lock\<close> and \<^verbatim>\<open>Cond\<close> (lines 148-150, 280-282), and the two
  worker entry scripts, which create one transforming object each and hand it every
  message (plain.worker.ts; compress.worker.ts 119-128).
\<close>

section \<open>Loading lock.js\<close>

text \<open>What the global \<^verbatim>\<open>Atomics\<close> object offers: whether it exists, whether it has the
  old \<^verbatim>\<open>wake\<close>, which function \<^verbatim>\<open>notify\<close> is, and which \<^verbatim>\<open>waitNonblocking\<close>.\<close>

datatype notify_fn = Notify_native | Notify_wake

datatype wnb_fn = WNB_native | WNB_polyfill

record atomics_global =
  ag_defined :: bool
  ag_wake :: bool
  ag_notify :: "notify_fn option"
  ag_waitNonblocking :: "wnb_fn option"

text \<open>Loading the module: it throws the string below when there is no \<^verbatim>\<open>Atomics\<close>; it
  makes \<^verbatim>\<open>notify\<close> the old \<^verbatim>\<open>wake\<close> where only that exists; and the polyfill's function
  returns early, installing nothing, when a \<^verbatim>\<open>waitNonblocking\<close> function is already there.\<close>

definition alias_notify :: "atomics_global \<Rightarrow> atomics_global" where
  "alias_notify g = (if ag_wake g \<and> ag_notify g = None then g\<lparr>ag_notify := Some Notify_wake\<rparr> else g)"

definition install_waitNonblocking :: "atomics_global \<Rightarrow> atomics_global" where
  "install_waitNonblocking g =
     (if ag_waitNonblocking g \<noteq> None then g else g\<lparr>ag_waitNonblocking := Some WNB_polyfill\<rparr>)"

definition lock_module_load :: "atomics_global \<Rightarrow> string + atomics_global" where
  "lock_module_load g =
     (if \<not> ag_defined g then Inl ''Incompatible embedding: Atomics object not available''
      else Inr (install_waitNonblocking (alias_notify g)))"

section \<open>Debugging output\<close>

text \<open>\<^verbatim>\<open>getLogger(prefix)\<close> (lib.ts 3-7): the logger it returns writes one console line,
  the prefix followed by the arguments.\<close>

definition getLogger :: "string \<Rightarrow> string list \<Rightarrow> string list list \<Rightarrow> string list list" where
  "getLogger prefix args console = console @ [prefix # args]"

text \<open>A non-negative integer as JavaScript's string conversion writes it: decimal digits,
  no leading zero.\<close>

fun show_nat :: "nat \<Rightarrow> string" where
  "show_nat n = (if n < 10 then [char_of (48 + n)] else show_nat (n div 10) @ [char_of (48 + n mod 10)])"

definition lock_toString :: "lock_obj \<Rightarrow> string" where
  "lock_toString lk = ''{/*Lock*/ loc:'' @ show_nat (lk_ibase lk * 4) @ ''}''"

text \<open>\<^verbatim>\<open>" lock:" + this.lock\<close> converts the lock with its \<^verbatim>\<open>toString\<close>.\<close>

definition cond_toString :: "cond_obj \<Rightarrow> string" where
  "cond_toString c =
     ''{/*Cond*/ loc:'' @ show_nat (cd_ibase c * 4) @ '' lock:'' @ lock_toString (cd_lock c) @ ''}''"

section \<open>The worker's status table\<close>

text \<open>\<^verbatim>\<open>FileTranformingWorkerStatus\<close> (lib.ts 272-278), the worker's own copy of the status
  values.\<close>

primrec ftw_status_code :: "status \<Rightarrow> int" where
  "ftw_status_code INIT = 0"
| "ftw_status_code INITED = 1"
| "ftw_status_code WORKING = 2"
| "ftw_status_code FINISHED = 3"
| "ftw_status_code ERROR = -1"

section \<open>The worker entry scripts\<close>

text \<open>\<^verbatim>\<open>const cw = new FileTranformingWorker()\<close> and its message listener, which hands
  \<^verbatim>\<open>event.data\<close> to \<^verbatim>\<open>cw.onMessage\<close>; an exception leaves the listener (the worker keeps
  running with \<^verbatim>\<open>cw\<close> as it was).\<close>

definition plain_worker :: ftw_state where
  "plain_worker = ftw_new"

definition plain_worker_onmessage :: "ftw_state \<Rightarrow> to_worker \<Rightarrow> ftw_dispatch" where
  "plain_worker_onmessage cw data = ftw_onMessage cw data"

text \<open>The same for \<^verbatim>\<open>CompressWorker\<close>, whose deflater is the codec \<open>cx\<close>.\<close>

definition compress_worker :: "'c cw_state" where
  "compress_worker = cw_new"

definition compress_worker_onmessage :: "'c codec \<Rightarrow> 'c cw_state \<Rightarrow> to_worker \<Rightarrow> 'c cw_dispatch" where
  "compress_worker_onmessage cx cw data = cw_onMessage cx cw data"

section \<open>Lemmas\<close>

text \<open>Reading the digits back, as \<^verbatim>\<open>parseInt\<close> would.\<close>

definition read_nat :: "string \<Rightarrow> nat" where
  "read_nat cs = foldl (\<lambda>a c. 10 * a + (of_char c - 48)) 0 cs"

lemma of_char_digit: "d < 10 \<Longrightarrow> of_char (char_of (48 + d) :: char) = (48 + d :: nat)"
  by (simp add: of_char_of)

lemma read_show_nat: "read_nat (show_nat n) = n"
proof (induction n rule: show_nat.induct)
  case (1 n)
  show ?case
  proof (cases "n < 10")
    case True
    then show ?thesis by (simp add: read_nat_def of_char_digit)
  next
    case False
    then have "read_nat (show_nat (n div 10)) = n div 10" using 1 by simp
    then show ?thesis using False by (simp add: read_nat_def of_char_digit)
  qed
qed

lemma show_nat_inj: "show_nat m = show_nat n \<longleftrightarrow> m = n"
  by (metis read_show_nat)

lemma lock_toString_inj: "lock_toString a = lock_toString b \<longleftrightarrow> lk_ibase a = lk_ibase b"
proof -
  have "lock_toString a = lock_toString b \<longleftrightarrow> lk_ibase a * 4 = lk_ibase b * 4"
    unfolding lock_toString_def by (simp only: same_append_eq append_same_eq show_nat_inj)
  then show ?thesis by simp
qed

lemma char_of_digits: "char_of (48::nat) = CHR ''0''" "char_of (56::nat) = CHR ''8''"
  by (simp_all add: char_of_def bit_simps)

lemma proxy_readCond_toString:
  "cond_toString \<lparr>cd_lock = \<lparr>lk_sab_len = 32, lk_ibase = 0\<rparr>, cd_ibase = 2\<rparr> =
   ''{/*Cond*/ loc:8 lock:{/*Lock*/ loc:0}}''"
  by (simp add: cond_toString_def lock_toString_def char_of_digits)

text \<open>The two status tables agree, and distinct statuses have distinct values, so one
  datatype \<open>status\<close> serves both classes.\<close>

lemma status_tables_agree: "ftw_status_code = status_code"
proof
  fix x show "ftw_status_code x = status_code x" by (cases x) simp_all
qed

lemma status_code_inj: "status_code x = status_code y \<longleftrightarrow> x = y"
  by (cases x; cases y) simp_all

text \<open>Loading succeeds exactly when \<^verbatim>\<open>Atomics\<close> exists, with the result below.\<close>

lemma lock_module_load_ok:
  "lock_module_load g = Inr g' \<longleftrightarrow>
     ag_defined g \<and> g' = install_waitNonblocking (alias_notify g)"
  by (auto simp: lock_module_load_def)

text \<open>The entry scripts start from a fresh object in state \<open>INIT\<close>: the proxy's
  \<^verbatim>\<open>"init"\<close> message is accepted and answered with \<^verbatim>\<open>["inited"]\<close>, while a \<^verbatim>\<open>"push"\<close>
  before it throws.\<close>

lemma plain_worker_init_first:
  "\<exists>w. plain_worker_onmessage plain_worker (W_Init p) = FTW_Inited w [M_Inited] \<and> ftw_status w = INITED"
  "plain_worker_onmessage plain_worker W_Push = FTW_Failed UnexpectedState"
  "compress_worker_onmessage cx compress_worker W_Push = CW_Failed UnexpectedState"
  by (simp_all add: plain_worker_onmessage_def plain_worker_def ftw_on_init_def worker_view_eq
                    ftw_push_start_def ftw_new_def compress_worker_onmessage_def compress_worker_def cw_new_def)

text \<open>C30: Loading lock.js throws exactly when there is no \<^verbatim>\<open>Atomics\<close> object. After a
  successful load \<^verbatim>\<open>waitNonblocking\<close> is a function, and a native one is kept rather
  than replaced by the polyfill; \<^verbatim>\<open>notify\<close> is a function exactly when the embedding had
  \<^verbatim>\<open>notify\<close> or the old \<^verbatim>\<open>wake\<close>, and an existing \<^verbatim>\<open>notify\<close> is kept. Without either, the
  \<^verbatim>\<open>Atomics.notify\<close> call of \<^verbatim>\<open>unlock\<close> and \<^verbatim>\<open>notifyOne\<close> is not a function.\<close>

theorem lock_module_load_spec:
  "((\<exists>g'. lock_module_load g = Inr g') \<longleftrightarrow> ag_defined g) \<and>
   (lock_module_load g = Inr g' \<longrightarrow>
      ag_waitNonblocking g' \<noteq> None \<and>
      (ag_waitNonblocking g \<noteq> None \<longrightarrow> ag_waitNonblocking g' = ag_waitNonblocking g) \<and>
      (ag_notify g' \<noteq> None \<longleftrightarrow> ag_notify g \<noteq> None \<or> ag_wake g) \<and>
      (ag_notify g \<noteq> None \<longrightarrow> ag_notify g' = ag_notify g))"
proof
  show "(\<exists>g'. lock_module_load g = Inr g') \<longleftrightarrow> ag_defined g"
    by (simp add: lock_module_load_ok)
  show "lock_module_load g = Inr g' \<longrightarrow>
      ag_waitNonblocking g' \<noteq> None \<and>
      (ag_waitNonblocking g \<noteq> None \<longrightarrow> ag_waitNonblocking g' = ag_waitNonblocking g) \<and>
      (ag_notify g' \<noteq> None \<longleftrightarrow> ag_notify g \<noteq> None \<or> ag_wake g) \<and>
      (ag_notify g \<noteq> None \<longrightarrow> ag_notify g' = ag_notify g)"
    by (auto simp: lock_module_load_ok install_waitNonblocking_def alias_notify_def)
qed

theorem lock_module_load_spec_witness:
  "lock_module_load
     \<lparr>ag_defined = True, ag_wake = True, ag_notify = None, ag_waitNonblocking = Some WNB_native\<rparr> =
   Inr \<lparr>ag_defined = True, ag_wake = True, ag_notify = Some Notify_wake, ag_waitNonblocking = Some WNB_native\<rparr> \<and>
   ag_waitNonblocking \<lparr>ag_defined = True, ag_wake = True, ag_notify = Some Notify_wake,
                        ag_waitNonblocking = Some WNB_native\<rparr> = Some WNB_native"
proof -
  have "lock_module_load \<lparr>ag_defined = True, ag_wake = True, ag_notify = None, ag_waitNonblocking = Some WNB_native\<rparr> =
        Inr \<lparr>ag_defined = True, ag_wake = True, ag_notify = Some Notify_wake, ag_waitNonblocking = Some WNB_native\<rparr>"
    by (simp add: lock_module_load_ok install_waitNonblocking_def alias_notify_def)
  with lock_module_load_spec [of "\<lparr>ag_defined = True, ag_wake = True, ag_notify = None,
                                    ag_waitNonblocking = Some WNB_native\<rparr>"]
  show ?thesis by simp
qed

end
