(* ===== verification/Spec2Isabelle.thy ===== *)
theory Spec2Isabelle
  imports Prelude Lock Cond WaitAsync Chunking Channel Serialize Producer Worker Pipeline Compress App View Ack Entry
begin

text \<open>
  \<^bold>\<open>A verification development for demo-browser-compress.\<close>

  \<^bold>\<open>The program.\<close> The main thread of a browser page (src/src/App.tsx, \<^verbatim>\<open>transformFile\<close>)
  hands an input \<^verbatim>\<open>ArrayBuffer\<close> to a \<^verbatim>\<open>WorkerProxy\<close> (src/src/lib.ts), which streams it
  chunk by chunk to a Web Worker through two \<^verbatim>\<open>SharedArrayBuffer\<close> regions: the proxy's
  write buffer (the worker's read buffer) and the proxy's read buffer (the worker's write
  buffer). The two sides synchronise through two futex locks and two condition variables
  (src/src/lock.js) that live in a third, 32-byte shared buffer, and tell each other about
  progress with \<^verbatim>\<open>postMessage\<close>. The worker side is \<^verbatim>\<open>FileTranformingWorker\<close> (lib.ts), a
  copy transform that src/src/plain.worker.ts runs, or the \<^verbatim>\<open>CompressWorker\<close> of
  src/src/compress.worker.ts, which feeds the chunks to a pako deflater. The proxy collects
  the chunks the worker sends back, reports progress, and settles the promise \<^verbatim>\<open>done()\<close>
  returned.

  \<^bold>\<open>Theories and what they model.\<close>
  \<^item> Prelude: the types of the model (32-bit words \<open>i32\<close> for the \<^verbatim>\<open>Int32Array\<close> slots,
    bytes as \<open>8 word\<close> lists, sizes and offsets as \<open>nat\<close>), one datatype \<open>js_error\<close> with a
    constructor per exception the code throws, the \<^verbatim>\<open>Atomics.compareExchange\<close> update
    \<open>cas_new\<close>, the typed-array window \<open>ta_view\<close> (with its \<open>RangeError\<close>) and
    \<open>ta_set_prefix\<close> (\<^verbatim>\<open>set\<close> at offset 0), and the list lemmas the components share.
  \<^item> Lock (lock.js lines 36-145 and 321-331): \<^verbatim>\<open>_checkParameters\<close>, \<^verbatim>\<open>Lock.initialize\<close>, the
    constructor (which accepts exactly the aligned, in-range locations of a shared buffer
    whose length is a multiple of 4, C15), and \<^verbatim>\<open>lock\<close>, \<^verbatim>\<open>asyncLock\<close>, \<^verbatim>\<open>tryLock\<close>, \<^verbatim>\<open>unlock\<close> as the step relation
    \<open>lock_step\<close> over any number of threads. The state \<open>lock_sys\<close> is the lock word, one
    program counter per thread (one value per atomic operation of the source, \<open>lpc\<close>) and
    the word's queue of parked waiters; \<open>lock_exec\<close> is one atomic step, \<open>futex_wait2\<close> and
    \<open>futex_notify1\<close> are \<^verbatim>\<open>Atomics.wait\<close>/\<^verbatim>\<open>notify\<close>, and the polyfill of
    \<^verbatim>\<open>Atomics.waitNonblocking\<close> is its fast check followed by the helper worker's wait.
    A strengthened invariant \<open>lock_inv\<close> holds in every reachable state (rule induction,
    one frame lemma per kind of step); from it: mutual exclusion (C1), no lost wake-up (C2)
    and refinement of the abstract mutex \<open>mutex_step\<close> on the set of owners (C3); the lock
    word stays in {0, 1, 2} and is 0 exactly when the lock is free (C20).
  \<^item> Chunking (lib.ts 183-204 and 340-371): the chunk size \<open>chunk_size\<close> both loops compute
    and the offset progression \<open>chunk_plan\<close> of the loops, proved equal to the closed form
    \<open>plan_of\<close>; chunk count, sum and last chunk (C10), round trip (C12), termination
    exactly for a positive size or an empty stream (C13), bounds (C14).
  \<^item> Channel (lib.ts 24-49, 84-95, 256-320; lock.js 219-238): options and their merge
    \<open>assign_opts\<close>, the status values, the buffers by identity (\<open>sab_id\<close>, contents in a map
    \<open>shared_mem\<close>), the messages each way, and both sides' lock/condition views
    \<open>proxy_view\<close>, \<open>worker_view\<close>, computed to be mirrored (\<open>proxy_view_eq\<close>, \<open>worker_view_eq\<close>).
  \<^item> Serialize (lock.js 153-170, 287-309): \<^verbatim>\<open>serialize\<close>/\<^verbatim>\<open>deserialize\<close> of locks and
    conditions, which rebuild the objects through their constructors; they invert each
    other on every object the constructors accept (C39).
  \<^item> Producer (lib.ts 51-254): the fields of \<^verbatim>\<open>WorkerProxy\<close> as the record \<open>wp_state\<close>
    (with the promise's \<open>outcome\<close> and the progress values passed to the callback), and
    one definition per method or per segment of \<^verbatim>\<open>push\<close> between its lock and condition calls;
    the message switch \<^verbatim>\<open>__onMessage\<close> is \<open>wp_onMessage\<close>, and \<open>wp_run\<close> applies any sequence
    of worker messages and loop passes. Results: every
    collected chunk fits the read buffer (C31), and \<^verbatim>\<open>done()\<close> is never rejected and is
    resolved only by a \<^verbatim>\<open>"finish"\<close> message (C32).
  \<^item> Worker (lib.ts 256-381): the fields of \<^verbatim>\<open>FileTranformingWorker\<close> as \<open>ftw_state\<close>,
    \<open>ftw_onMessage\<close> with its errors, and the two halves of one pass of the push loop,
    split at its \<^verbatim>\<open>writeCond.wait()\<close>.
  \<^item> Pipeline (App.tsx 66-82 with the handlers above): a whole transform with the copy
    worker. \<open>pipe_setup\<close> is the set-up up to the first chunk, \<open>pipe_chunk\<close> one round of
    the handshake, \<open>pipe_loop\<close> the loop of \<^verbatim>\<open>push\<close>, \<open>pipe_run\<close> the transform. A round can
    stop the run with a fault (an exception on either side) or a stall (a side waiting
    for a notification that cannot come). Results: the end-to-end round trip (C4); the
    transform never finishes when the length is a multiple of the write size (C5);
    termination exactly when the write size is positive or the input empty, and then,
    with a write size that fits the read size, a transfer to the end of the input with no
    fault and no stall (C6); a
    \<open>RangeError\<close> in the worker when the write size exceeds the read size (C7); no transfer
    and no settlement for an empty input (C8); progress values ordered and in (0, 100] (C9).
  \<^item> Compress (compress.worker.ts): \<^verbatim>\<open>CompressWorker\<close> with its fields \<open>cw_state\<close>, its
    \<^verbatim>\<open>onMessage\<close> (\<open>cw_onMessage\<close>; the deflater's \<^verbatim>\<open>chunkSize\<close> is the smaller buffer),
    the loop pass \<open>cw_read_push\<close>, and \<^verbatim>\<open>CustromDeflate.onData\<close>/\<^verbatim>\<open>onEnd\<close>; composed with
    the proxy as \<open>cpipe_run\<close>. pako is the parameter record \<open>codec\<close> with the contract
    \<open>codec_ok\<close> (each output chunk fits \<^verbatim>\<open>chunkSize\<close>; the stream ends when the last input is
    pushed). Results: the round trip to the codec's output for any lawful codec (C16), the
    copying codec \<open>copy_codec\<close> returns the input (C17), and with the copying codec the compress transform equals the copy transform (C19).
  \<^item> Cond (lock.js 240-264, 336-344; lib.ts 181-207, 339-373): the proxy's write lock and
    condition are the worker's read lock and condition, and both loops run lock; repeat
    (body; \<^verbatim>\<open>notifyOne\<close>; wait). \<open>cond_exec\<close> is one atomic step of either side over the
    shared state \<open>cond_sys\<close> (the 32-bit sequence word, the lock owner, the parked waiters);
    the proxy waits through the polyfill (fast check, then a helper's \<^verbatim>\<open>Atomics.wait\<close>), the
    worker with \<^verbatim>\<open>Atomics.wait\<close>. The lock is the abstract owner that C3 justifies. An
    invariant \<open>cond_inv\<close> with two ghost fields (rounds run per side, whose body is next) is
    preserved by every step (one lemma per program point); from it: no deadlock (C21),
    strict alternation of the bodies (C22), the waiter's value is the current sequence
    value or one behind, so the 32-bit wrap is harmless (C23), and no lost wake-up (C24).
    \<^verbatim>\<open>notifyAll\<close> is modelled (\<open>seq_notify_all\<close>) but the program never calls it.
  \<^item> Ack (lib.ts 213-235 and 339-373): the other lock and condition, which the worker calls
    \<^verbatim>\<open>writeLock\<close>/\<^verbatim>\<open>writeCond\<close> and the proxy \<^verbatim>\<open>readLock\<close>/\<^verbatim>\<open>readCond\<close>. \<open>worker_step\<close> is the
    worker's critical section per chunk (lock, copy into the proxy's read buffer, post
    \<^verbatim>\<open>"push"\<close>, the load, unlock, \<^verbatim>\<open>Atomics.wait\<close> and relock of \<^verbatim>\<open>Cond.wait\<close>, unlock);
    \<open>proxy_step\<close> is \<^verbatim>\<open>onReceived\<close> for each queued message (\<^verbatim>\<open>asyncLock\<close>, the status check
    whose early return keeps the lock, the copy out, \<^verbatim>\<open>notifyOne\<close>, \<^verbatim>\<open>unlock\<close>);
    \<open>ack_reach\<close> interleaves them from \<open>ack_init\<close>, with the status fixed. For the status
    \<open>WORKING\<close> an invariant \<open>ack_inv\<close> (lock owner, where each chunk is, phase of the proxy
    for each point of the worker) holds; from it: the worker never overwrites a chunk
    the proxy has not copied (C18), and the handshake never deadlocks and every round can
    complete, by a rank that every step decreases until the worker's final unlock (C28). For any other
    status \<open>ack_stuck_inv\<close> holds: nothing is ever copied and the worker never passes its
    first wait, and the witness \<open>ack_dead\<close> is a reachable state where neither side can
    move (C37).
  \<^item> WaitAsync (lock.js 350-451): the polyfill of \<^verbatim>\<open>Atomics.waitNonblocking\<close> with its helper
    pool \<open>wn_state\<close> (\<^verbatim>\<open>allocHelper\<close>, \<^verbatim>\<open>freeHelper\<close>), the call \<open>waitNonblocking\<close>, the
    helper's \<open>helper_onmessage\<close> and the main thread's \<open>wn_onreply\<close>; \<open>wn_reach\<close> allows
    calls and replies in any order. Results: no helper leaks or is shared (C25); a notified
    wait resolves its promise with \<^verbatim>\<open>"ok"\<close> and returns its helper (C26); the only errors
    are \<open>TypeError\<close> and \<open>RangeError\<close>, the latter on the index after its \<^verbatim>\<open>| 0\<close>
    conversion, which wraps at \<open>2^32\<close> (C27).
  \<^item> App (App.tsx 37-129; lib.ts 9-22): the drop zone \<^verbatim>\<open>DropZone\<close> with its React state
    \<open>dz_state\<close> (\<^verbatim>\<open>isHover\<close>, \<^verbatim>\<open>readingFile\<close>, \<^verbatim>\<open>progress\<close>, plus the transforms in
    flight and the names saved), its handlers \<open>onDragEnter\<close>, \<open>onDragExit\<close>, \<open>onDrop\<close>,
    \<open>dz_onProgress\<close>, and the end of a transform (\<open>transform_saved\<close>,
    \<open>transform_failed\<close>), as the step relation \<open>dz_step\<close>. How a transform ends is a
    parameter; for the compress zone it is \<open>transformFile_outcome\<close>, which reads the file
    (\<open>readFileAsArrayBuffer\<close>) and runs \<open>cpipe_run\<close> of Compress. Results: at most one
    awaited transform at a time, guarded by \<^verbatim>\<open>readingFile\<close> (C33); the output name
    round trip for names without \<^verbatim>\<open>".compress"\<close>, and the first occurrence, not the
    suffix, removed otherwise (C35); a null file throws (C36); the files branch
    starts concurrent transforms (C38).
  \<^item> View (App.tsx 12-35, 54-64, 76-81, 122-153): what the page shows and saves. The
    window listeners (\<open>window_prevents_default\<close>), \<^verbatim>\<open>ProgressBar\<close>, the element
    \<open>dz_render\<close> a drop zone renders from its state, and \<^verbatim>\<open>App\<close>'s \<open>app_render\<close>, as
    values of a small JSX datatype \<open>vnode\<close>; \<^verbatim>\<open>saveBlobAsFile\<close> on a model \<open>dom\<close> of the
    document (the body's nodes, the blobs behind the object URLs created, the downloads
    started), and the end of \<^verbatim>\<open>transformFile\<close> (\<open>transformFile_save\<close>). Results: the
    download has the output name and the concatenated chunks, the body is restored, and
    the object URL is never revoked (C11); an empty or unreadable file locks the compress
    zone for good and it shows "reading file ..." from then on (C34, composed with
    Compress and App).
  \<^item> Entry (lock.js 18-23, 149-151, 283-285, 386-387; lib.ts 3-7, 271-277; plain.worker.ts;
    compress.worker.ts 119-127): loading lock.js (\<open>lock_module_load\<close>: the throw without
    \<^verbatim>\<open>Atomics\<close>, the \<^verbatim>\<open>wake\<close> alias, the polyfill's install guard; what a load
    guarantees, C30), the \<^verbatim>\<open>toString\<close>
    methods with the decimal conversion \<open>show_nat\<close> (read back by \<open>read_nat\<close>, so a lock's
    string determines its location), \<open>getLogger\<close>, the worker's status table (equal to
    the proxy's, so one datatype \<open>status\<close> serves both), and the entry scripts, whose fresh
    object accepts \<^verbatim>\<open>"init"\<close> and throws on a \<^verbatim>\<open>"push"\<close> before it.
  \<^item> This theory: the proxy's wait step of Cond refines the polyfill (C29).

  \<^bold>\<open>How the sides are composed.\<close> In the program the proxy and the worker run concurrently
  and meet only in the locks, the conditions and the message queues. Pipeline and Compress
  compose them in one fixed order per chunk: proxy write, worker copy (or deflate) and
  post, proxy \<^verbatim>\<open>onReceived\<close>, worker acknowledgement (and \<^verbatim>\<open>"finish"\<close>). Cond shows that
  this order is forced: over every interleaving of the atomic steps of the two loops on
  the shared lock and condition, the loop bodies strictly alternate (C22) and never
  deadlock (C21). Lock covers every interleaving of the futex lock's own steps and refines
  the mutex that Cond uses (C3); C29 ties the proxy's wait in Cond to the polyfill.
  Ack does the same for the second pair, where the worker waits and \<^verbatim>\<open>onReceived\<close>
  notifies (C18, C28), and shows the deadlock the early return of \<^verbatim>\<open>onReceived\<close> causes
  (C37). Cond models the steady state of the loops: the worker's last pass, which skips its
  wait, and the loop exits are the business of Pipeline.

  \<^bold>\<open>Loops, partiality and bounds.\<close> The loops that may not end are
  \<open>partial_function (option)\<close> definitions (\<open>chunk_plan\<close>, \<open>pipe_loop\<close>, \<open>cpipe_loop\<close>): a
  loop that runs forever has the value \<open>None\<close>, and C13 and C6 state exactly when the value
  is \<open>Some\<close>; C6 also separates a completed transfer from a run that halts with a fault or
  a stall, which in the program is a push that never returns. No fuel is used. The lock word and the condition's sequence word are 32-bit
  words: the invariant keeps the lock word in {0, 1, 2}, so its decrement in \<^verbatim>\<open>unlock\<close>
  never wraps (C20), and the sequence word may wrap, which C23 shows harmless. Offsets and
  sizes are JavaScript numbers; they stay far below \<open>2^53\<close> for any buffer a browser
  allocates, so they are natural numbers here. Progress is a real number. A timeout of the
  polyfill is an extended natural (absent: infinite).

  \<^bold>\<open>Not modelled.\<close> The pako codec itself (a third-party library; the contract
  \<open>codec_ok\<close> stands for it); the log calls, which only print (the logger \<open>getLogger\<close>
  returns is modelled); React's reconciliation and the CSS of App.tsx; the decompress
  worker, which App.tsx imports but the repository does not contain, so the decompress
  zone's outcomes are left open; test.js, a test harness outside the program. The
  oversized-chunk throw of \<^verbatim>\<open>onReceived\<close> is left out of Ack, since every chunk fits
  (C31).
\<close>

section \<open>The condition's wait on the main thread and the polyfill\<close>

text \<open>The sequence word of a condition as the one-slot shared \<^verbatim>\<open>Int32Array\<close> that
  \<^verbatim>\<open>asyncWait\<close> passes to \<^verbatim>\<open>Atomics.waitNonblocking\<close> (lock.js 336-344).\<close>

definition seq_ia :: "i32 \<Rightarrow> shared_ia" where
  "seq_ia x = \<lparr>ia_object = True, ia_int32 = True, ia_shared = True, ia_cells = [x]\<rparr>"

text \<open>C29: The proxy's wait step of the condition model refines the polyfill: the step
  returns to the lock at once exactly when \<^verbatim>\<open>Atomics.waitNonblocking\<close> on the sequence word
  resolves \<^verbatim>\<open>"not-equal"\<close> without a helper, and it goes on to the helper's wait exactly
  when the polyfill posts a \<^verbatim>\<open>'wait'\<close> for the value the proxy read.\<close>

theorem cond_wait_refines_polyfill:
  assumes "cs_pc s Proxy = C_Wait v"
  shows "(cond_exec Proxy s = Some (cset_pc Proxy C_Relock s) \<longleftrightarrow>
            waitNonblocking (seq_ia (cs_seq s)) 0 (sint v) None w = Inr (WN_resolved Not_equal, [], w)) \<and>
         (cond_exec Proxy s = Some (cset_pc Proxy (C_Helper v) s) \<longleftrightarrow>
            (\<exists>h w'. waitNonblocking (seq_ia (cs_seq s)) 0 (sint v) None w =
                      Inr (WN_pending (wn_calls w), [(h, Wait_msg (seq_ia (cs_seq s)) 0 (sint v) \<infinity>)], w')))"
proof -
  have ex: "cond_exec Proxy s = Some (cset_pc Proxy (if cs_seq s \<noteq> v then C_Relock else C_Helper v) s)"
    using assms by (simp add: cond_exec_def)
  obtain h w0 where a: "allocHelper w = (h, w0)" by (cases "allocHelper w")
  have fr: "wn_calls w0 = wn_calls w" using allocHelper_frame [OF a] by simp
  have wn: "waitNonblocking (seq_ia (cs_seq s)) 0 (sint v) None w =
            (if cs_seq s \<noteq> v then Inr (WN_resolved Not_equal, [], w)
             else Inr (WN_pending (wn_calls w), [(h, Wait_msg (seq_ia (cs_seq s)) 0 (sint v) \<infinity>)],
                       w0\<lparr>wn_pending := wn_pending w0 @ [(h, wn_calls w)], wn_calls := Suc (wn_calls w)\<rparr>))"
    using a fr by (simp add: waitNonblocking_def seq_ia_def ia_valid_def atomics_load_def
                             sint_i32_eq_iff to_int32_def [of 0] Let_def)
  show ?thesis
    unfolding ex wn by (simp add: cset_pc_eq_iff)
qed

text \<open>The proxy waiting after its first chunk: it read the sequence word after its own
  increment (1) and the worker has not incremented it since, so the wait goes to a helper.\<close>

theorem cond_wait_refines_polyfill_witness:
  "cond_exec Proxy (cset_pc Proxy (C_Wait 1) (cond_init\<lparr>cs_seq := 1\<rparr>)) =
     Some (cset_pc Proxy (C_Helper 1) (cset_pc Proxy (C_Wait 1) (cond_init\<lparr>cs_seq := 1\<rparr>)))"
  using cond_wait_refines_polyfill [of "cset_pc Proxy (C_Wait 1) (cond_init\<lparr>cs_seq := 1\<rparr>)" 1 wn_init]
  by (simp add: cset_pc_def waitNonblocking_def seq_ia_def ia_valid_def atomics_load_def
                to_int32_def allocHelper_def wn_init_def)

end
